theory Spec2Isabelle
  imports Complex_Main "HOL-Library.AList" "HOL-Library.Word"
begin

section \<open>CarrotSpeed: a grid cache of signed speed hints\<close>

text \<open>
  Shallow embedding of \<^verbatim>\<open>selfdrive/carrot/carrot_speed.py\<close>.
  A Python float is modelled by the \<^typ>\<open>real\<close> it denotes (no NaN, no infinity), a
  Python int by \<^typ>\<open>int\<close>. The speeds that \<^verbatim>\<open>add_sample\<close> computes and stores are
  rounded to binary64 at every operation, as the machine does; the coordinates, which are
  only floored to a cell, are computed on the reals. Every reading of the wall clock inside
  one call is the parameter \<open>now\<close> (seconds) of the modelled operation; the lock is not
  modelled, each operation is one atomic state transformer.
\<close>

subsection \<open>Python helpers\<close>

datatype py_exn = IndexError | ValueError | TypeError | AttributeError | DecodeError

text \<open>Python list indexing \<^verbatim>\<open>xs[i]\<close>: a negative index counts from the end,
  an index out of range raises.\<close>

definition py_index :: "'a list \<Rightarrow> int \<Rightarrow> py_exn + nat" where
  "py_index xs i =
     (let j = (if i < 0 then i + int (length xs) else i)
      in if j < 0 \<or> int (length xs) \<le> j then Inl IndexError else Inr (nat j))"

text \<open>\<^verbatim>\<open>x % m\<close> on floats, for a positive modulus.\<close>

definition py_fmod :: "real \<Rightarrow> real \<Rightarrow> real" where
  "py_fmod x m = x - m * of_int \<lfloor>x / m\<rfloor>"

text \<open>Rounding to the nearest integer, an exact tie to the even neighbour.\<close>

definition round_half_even :: "real \<Rightarrow> int" where
  "round_half_even y =
     (let f = \<lfloor>y\<rfloor>; r = y - of_int f
      in if r < 1 / 2 then f else if 1 / 2 < r then f + 1 else if even f then f else f + 1)"

text \<open>The decimal with one fractional digit nearest to \<open>x\<close>, an exact tie to the even
  neighbour: the digits \<^verbatim>\<open>round(x, 1)\<close> decides on.\<close>

definition round1 :: "real \<Rightarrow> real" where
  "round1 x = of_int (round_half_even (x * 10)) / 10"

text \<open>Binary64. \<open>bit_length n\<close> is the number of binary digits of \<open>n\<close>, \<open>binexp x\<close> the
  exponent \<open>e\<close> with \<open>2^e \<le> |x| < 2^(e+1)\<close>, and \<open>to_double x\<close> the multiple of
  \<open>2^(e-52)\<close> nearest to \<open>x\<close>, a tie to the even one: the double that a float operation
  with the exact result \<open>x\<close> returns. Overflow and subnormal numbers are left out.\<close>

fun bit_length :: "nat \<Rightarrow> nat" where
  "bit_length n = (if n = 0 then 0 else Suc (bit_length (n div 2)))"

declare bit_length.simps [simp del]

definition binexp :: "real \<Rightarrow> int" where
  "binexp x =
     (if 1 \<le> \<bar>x\<bar> then int (bit_length (nat \<lfloor>\<bar>x\<bar>\<rfloor>)) - 1
      else - int (bit_length (nat (\<lceil>1 / \<bar>x\<bar>\<rceil> - 1))))"

definition to_double :: "real \<Rightarrow> real" where
  "to_double x =
     (if x = 0 then 0
      else let s = 52 - binexp x
           in if 0 \<le> s then of_int (round_half_even (x * 2 ^ nat s)) / 2 ^ nat s
              else of_int (round_half_even (x / 2 ^ nat (- s))) * 2 ^ nat (- s))"

text \<open>\<^verbatim>\<open>round(x, 1)\<close> on a float: the double nearest to the rounded decimal.\<close>

definition py_round1 :: "real \<Rightarrow> real" where
  "py_round1 x = to_double (round1 x)"

text \<open>\<^verbatim>\<open>(a + b) / 2.0\<close> on floats: the sum is rounded, then the quotient.\<close>

definition float_mean :: "real \<Rightarrow> real \<Rightarrow> real" where
  "float_mean a b = to_double (to_double (a + b) / 2)"

definition radians :: "real \<Rightarrow> real" where
  "radians x = x * pi / 180"

definition degrees :: "real \<Rightarrow> real" where
  "degrees x = x * 180 / pi"

subsection \<open>Geo helpers\<close>

definition quantize_1e4 :: "real \<Rightarrow> real \<Rightarrow> int \<times> int" where
  "quantize_1e4 lat lon = (\<lfloor>lat * 10000\<rfloor>, \<lfloor>lon * 10000\<rfloor>)"

definition heading_to_bucket :: "real \<Rightarrow> int" where
  "heading_to_bucket heading_deg =
     (let i = \<lfloor>py_fmod heading_deg 360 / 45\<rfloor>
      in if i < 0 then 0 else if 7 < i then 7 else i)"

definition project_point :: "real \<Rightarrow> real \<Rightarrow> real \<Rightarrow> real \<Rightarrow> real \<times> real" where
  "project_point lat lon heading_deg distance_m =
     (if distance_m \<le> 0 then (lat, lon)
      else let R = 6371000;
               h = radians heading_deg;
               dlat = (distance_m * cos h) / R;
               dlon = (distance_m * sin h) / (R * cos (radians lat))
           in (lat + degrees dlat, lon + degrees dlon))"

type_synonym byte = "8 word"

definition is_gzip :: "byte list \<Rightarrow> bool" where
  "is_gzip data = (2 \<le> length data \<and> data ! 0 = 0x1F \<and> data ! 1 = 0x8B)"

subsection \<open>The object\<close>

text \<open>A slot is the two-element list \<^verbatim>\<open>[v, ts]\<close>; a cell is the list of its slots;
  \<^verbatim>\<open>_cells\<close> is a dict, kept here as an association list in insertion order and read
  with \<^const>\<open>map_of\<close>.\<close>

type_synonym slot = "real option \<times> int option"
type_synonym cell_key = "int \<times> int"
type_synonym grid = "(cell_key \<times> slot list) list"

definition KEY :: string where
  "KEY = ''CarrotSpeedTable''"

text \<open>\<^verbatim>\<open>self.buckets\<close> is set to 8 by the constructor and never written again.\<close>

definition buckets :: int where
  "buckets = 8"

record carrot_speed =
  neighbor_ring :: int
  neighbor_old_threshold_s :: int
  use_gzip :: bool
  gzip_level :: int
  cells :: grid
  dirty :: bool
  last_save :: int
  params :: "string \<rightharpoonup> byte list"
  last_hit :: "(int \<times> int \<times> int \<times> int) option"
  last_hit_read_ms :: int

definition empty_cell :: "slot list" where
  "empty_cell = replicate (nat buckets) (None, None)"

definition ensure_cell :: "carrot_speed \<Rightarrow> int \<Rightarrow> int \<Rightarrow> slot list \<times> carrot_speed" where
  "ensure_cell st gy gx =
     (case map_of (cells st) (gy, gx) of
        None \<Rightarrow> (empty_cell, st\<lparr>cells := AList.update (gy, gx) empty_cell (cells st)\<rparr>)
      | Some arr \<Rightarrow> (arr, st))"

text \<open>\<^verbatim>\<open>_neighbors_8\<close>: \<open>dy\<close> outside, \<open>dx\<close> inside, the cell itself left out.\<close>

definition neighbors_8 :: "int \<Rightarrow> int \<Rightarrow> cell_key list" where
  "neighbors_8 gy gx =
     [(gy + dy, gx + dx). dy \<leftarrow> [- 1, 0, 1], dx \<leftarrow> [- 1, 0, 1], \<not> (dy = 0 \<and> dx = 0)]"

text \<open>\<^verbatim>\<open>_try_cell_buckets_old\<close>: the loop over the offsets \<open>(0, -1, +1)\<close>; the result
  \<^verbatim>\<open>(None, None)\<close> is \<open>None\<close> here.\<close>

fun try_offsets :: "carrot_speed \<Rightarrow> int \<Rightarrow> slot list \<Rightarrow> int \<Rightarrow> int list
    \<Rightarrow> py_exn + (real \<times> int) option" where
  "try_offsets st now arr b [] = Inr None"
| "try_offsets st now arr b (off # offs) =
     (let bi = (b + off) mod buckets
      in case py_index arr bi of
           Inl e \<Rightarrow> Inl e
         | Inr j \<Rightarrow>
             (case arr ! j of
                (Some v, Some ts) \<Rightarrow>
                  if now - ts < neighbor_old_threshold_s st
                  then try_offsets st now arr b offs
                  else Inr (Some (v, bi))
              | _ \<Rightarrow> try_offsets st now arr b offs))"

definition try_cell_buckets_old :: "carrot_speed \<Rightarrow> int \<Rightarrow> slot list \<Rightarrow> int
    \<Rightarrow> py_exn + (real \<times> int) option" where
  "try_cell_buckets_old st now arr b = try_offsets st now arr b [0, - 1, 1]"

subsection \<open>Writer\<close>

definition put_slot :: "carrot_speed \<Rightarrow> cell_key \<Rightarrow> slot list \<Rightarrow> nat \<Rightarrow> slot \<Rightarrow> carrot_speed" where
  "put_slot st k arr j s = st\<lparr>cells := AList.update k (arr[j := s]) (cells st)\<rparr>"

definition add_sample :: "carrot_speed \<Rightarrow> int \<Rightarrow> real \<Rightarrow> real \<Rightarrow> real \<Rightarrow> real
    \<Rightarrow> py_exn + carrot_speed" where
  "add_sample st now lat lon heading_deg speed_signed =
     (let v_in = py_round1 speed_signed
      in if v_in = 0 then Inr st
         else
           let (gy, gx) = quantize_1e4 lat lon;
               b = heading_to_bucket heading_deg;
               (arr, st1) = ensure_cell st gy gx
           in case py_index arr b of
                Inl e \<Rightarrow> Inl e
              | Inr j \<Rightarrow>
                  (case arr ! j of
                     (None, ts_old) \<Rightarrow>
                       Inr ((put_slot st1 (gy, gx) arr j (Some v_in, Some now))\<lparr>dirty := True\<rparr>)
                   | (Some v_old, ts_old) \<Rightarrow>
                       (let new_val = py_round1 (float_mean v_old v_in)
                        in if 0 < v_in
                           then if v_old < 0
                                then Inr ((put_slot st1 (gy, gx) arr j (Some v_in, ts_old))
                                            \<lparr>dirty := True\<rparr>)
                                else Inr ((put_slot st1 (gy, gx) arr j (Some new_val, ts_old))
                                            \<lparr>dirty := True\<rparr>)
                           else Inr ((put_slot st1 (gy, gx) arr j (Some v_in, ts_old))
                                       \<lparr>dirty := True\<rparr>))))"

subsection \<open>Reader\<close>

text \<open>The candidate distances of \<^verbatim>\<open>query_target_dist\<close>.\<close>

definition cand_ds :: "real \<Rightarrow> real list" where
  "cand_ds dist_m = dist_m # [dist_m + off. off \<leftarrow> [3, - 3, 6, - 6], 0 \<le> dist_m + off]"

text \<open>The lookup both searches share: \<^verbatim>\<open>arr = self._cells.get(k)\<close>, then, if
  \<^verbatim>\<open>arr\<close> is neither \<^verbatim>\<open>None\<close> nor empty, the bucket search.\<close>

definition try_cell :: "carrot_speed \<Rightarrow> int \<Rightarrow> int \<Rightarrow> cell_key
    \<Rightarrow> py_exn + (real \<times> int) option" where
  "try_cell st now b k =
     (case map_of (cells st) k of
        None \<Rightarrow> Inr None
      | Some arr \<Rightarrow> if arr = [] then Inr None else try_cell_buckets_old st now arr b)"

type_synonym hit = "real \<times> int \<times> int \<times> int"

fun search_neighbors :: "carrot_speed \<Rightarrow> int \<Rightarrow> int \<Rightarrow> cell_key list
    \<Rightarrow> py_exn + hit option" where
  "search_neighbors st now b [] = Inr None"
| "search_neighbors st now b ((ny, nx) # ns) =
     (case try_cell st now b (ny, nx) of
        Inl e \<Rightarrow> Inl e
      | Inr (Some (v2, b_sel2)) \<Rightarrow> Inr (Some (v2, ny, nx, b_sel2))
      | Inr None \<Rightarrow> search_neighbors st now b ns)"

text \<open>The loop over the candidate distances; a hit is the value with the cell and the
  bucket it was read from.\<close>

fun search_dists :: "carrot_speed \<Rightarrow> int \<Rightarrow> real \<Rightarrow> real \<Rightarrow> real \<Rightarrow> bool \<Rightarrow> int
    \<Rightarrow> real list \<Rightarrow> py_exn + hit option" where
  "search_dists st now lat lon heading_deg neighbor_fallback b [] = Inr None"
| "search_dists st now lat lon heading_deg neighbor_fallback b (d # ds) =
     (let (y, x) = project_point lat lon heading_deg d;
          (gy, gx) = quantize_1e4 y x
      in case try_cell st now b (gy, gx) of
           Inl e \<Rightarrow> Inl e
         | Inr (Some (v, b_sel)) \<Rightarrow> Inr (Some (v, gy, gx, b_sel))
         | Inr None \<Rightarrow>
             if \<not> neighbor_fallback
             then search_dists st now lat lon heading_deg neighbor_fallback b ds
             else (case search_neighbors st now b (neighbors_8 gy gx) of
                     Inl e \<Rightarrow> Inl e
                   | Inr (Some h) \<Rightarrow> Inr (Some h)
                   | Inr None \<Rightarrow>
                       search_dists st now lat lon heading_deg neighbor_fallback b ds))"

definition find_hit :: "carrot_speed \<Rightarrow> int \<Rightarrow> real \<Rightarrow> real \<Rightarrow> real \<Rightarrow> real \<Rightarrow> bool
    \<Rightarrow> py_exn + hit option" where
  "find_hit st now lat lon heading_deg dist_m neighbor_fallback =
     search_dists st now lat lon heading_deg neighbor_fallback
       (heading_to_bucket heading_deg) (cand_ds dist_m)"

text \<open>\<open>now_ms\<close> is the reading \<^verbatim>\<open>int(time.time() * 1000)\<close> taken at a hit.\<close>

definition query_target_dist :: "carrot_speed \<Rightarrow> int \<Rightarrow> int \<Rightarrow> real \<Rightarrow> real \<Rightarrow> real \<Rightarrow> real
    \<Rightarrow> bool \<Rightarrow> py_exn + real \<times> carrot_speed" where
  "query_target_dist st now now_ms lat lon heading_deg dist_m neighbor_fallback =
     (case find_hit st now lat lon heading_deg dist_m neighbor_fallback of
        Inl e \<Rightarrow> Inl e
      | Inr (Some (v, gy, gx, b_sel)) \<Rightarrow>
          Inr (v, st\<lparr>last_hit := Some (gy, gx, b_sel, now), last_hit_read_ms := now_ms\<rparr>)
      | Inr None \<Rightarrow> Inr (0, st))"

definition query_target :: "carrot_speed \<Rightarrow> int \<Rightarrow> int \<Rightarrow> real \<Rightarrow> real \<Rightarrow> real \<Rightarrow> real
    \<Rightarrow> real \<Rightarrow> bool \<Rightarrow> py_exn + real \<times> carrot_speed" where
  "query_target st now now_ms lat lon heading_deg v_ego lookahead_s neighbor_fallback =
     query_target_dist st now now_ms lat lon heading_deg (max 0 (v_ego * lookahead_s))
       neighbor_fallback"

subsection \<open>Invalidation\<close>

definition invalidate_last_hit :: "carrot_speed \<Rightarrow> int \<Rightarrow> real \<Rightarrow> string
    \<Rightarrow> py_exn + bool \<times> carrot_speed" where
  "invalidate_last_hit st now window_s action =
     (case last_hit st of
        None \<Rightarrow> Inr (False, st)
      | Some (gy, gx, b, read_ts) \<Rightarrow>
          if window_s < of_int (now - read_ts) then Inr (False, st)
          else (case map_of (cells st) (gy, gx) of
                  None \<Rightarrow> Inr (False, st)
                | Some arr \<Rightarrow>
                    if arr = [] then Inr (False, st)
                    else (case py_index arr b of
                            Inl e \<Rightarrow> Inl e
                          | Inr j \<Rightarrow>
                              (case arr ! j of
                                 (v, ts) \<Rightarrow>
                                   if action = ''clear''
                                   then Inr (True, (put_slot st (gy, gx) arr j (None, None))
                                                     \<lparr>dirty := True\<rparr>)
                                   else (case v of
                                           Some v' \<Rightarrow>
                                             Inr (True, (put_slot st (gy, gx) arr j (Some v', Some now))
                                                          \<lparr>dirty := True\<rparr>)
                                         | None \<Rightarrow> Inr (False, st))))))"

subsection \<open>Persistence\<close>

text \<open>What \<^verbatim>\<open>json.loads\<close> returns and \<^verbatim>\<open>json.dumps\<close> takes. An object is the dict
  in insertion order, its keys distinct.\<close>

datatype json =
    JNull
  | JBool bool
  | JInt int
  | JFloat real
  | JStr string
  | JList "json list"
  | JObj "(string \<times> json) list"

text \<open>The library functions the codec calls, as parameters: \<^verbatim>\<open>gzip.compress\<close>,
  \<^verbatim>\<open>gzip.decompress\<close>, \<^verbatim>\<open>json.dumps(...).encode("utf-8")\<close>,
  \<^verbatim>\<open>json.loads(bytes.decode("utf-8"))\<close>, and the builtins \<^verbatim>\<open>int\<close> and \<^verbatim>\<open>float\<close>
  on a string.\<close>

record py_runtime =
  gzip_compress :: "int \<Rightarrow> byte list \<Rightarrow> py_exn + byte list"
  gzip_decompress :: "byte list \<Rightarrow> py_exn + byte list"
  json_dumps :: "json \<Rightarrow> byte list"
  json_loads :: "byte list \<Rightarrow> py_exn + json"
  int_of_str :: "string \<Rightarrow> py_exn + int"
  float_of_str :: "string \<Rightarrow> py_exn + real"

text \<open>Modelled from the spec: the key-value store \<^verbatim>\<open>openpilot.common.params.Params\<close> is
  not among the sources. The spec gives it a blocking get, a non-blocking put and a
  delete by key; the source calls the last one both \<^verbatim>\<open>remove\<close> and \<^verbatim>\<open>delete\<close>.\<close>

definition params_get :: "(string \<rightharpoonup> byte list) \<Rightarrow> string \<Rightarrow> byte list option" where
  "params_get store k = store k"

definition params_put_nonblocking :: "(string \<rightharpoonup> byte list) \<Rightarrow> string \<Rightarrow> byte list
    \<Rightarrow> (string \<rightharpoonup> byte list)" where
  "params_put_nonblocking store k v = store(k \<mapsto> v)"

definition params_remove :: "(string \<rightharpoonup> byte list) \<Rightarrow> string \<Rightarrow> (string \<rightharpoonup> byte list)" where
  "params_remove store k = store(k := None)"

definition params_delete :: "(string \<rightharpoonup> byte list) \<Rightarrow> string \<Rightarrow> (string \<rightharpoonup> byte list)" where
  "params_delete store k = store(k := None)"

text \<open>\<^verbatim>\<open>f"{gy}"\<close> for an int: the decimal digits, a minus sign first when negative.\<close>

fun str_of_nat :: "nat \<Rightarrow> string" where
  "str_of_nat n =
     (if n < 10 then [''0123456789'' ! n]
      else str_of_nat (n div 10) @ [''0123456789'' ! (n mod 10)])"

declare str_of_nat.simps [simp del]

definition str_of_int :: "int \<Rightarrow> string" where
  "str_of_int i = (if i < 0 then CHR ''-'' # str_of_nat (nat (- i)) else str_of_nat (nat i))"

definition key_of :: "int \<Rightarrow> int \<Rightarrow> string" where
  "key_of gy gx = str_of_int gy @ '','' @ str_of_int gx"

text \<open>\<^verbatim>\<open>key.split(",")\<close>.\<close>

fun split_comma :: "string \<Rightarrow> string list" where
  "split_comma [] = [[]]"
| "split_comma (c # cs) =
     (if c = CHR '','' then [] # split_comma cs
      else (case split_comma cs of [] \<Rightarrow> [[c]] | p # ps \<Rightarrow> (c # p) # ps))"

definition encode_slot :: "slot \<Rightarrow> json" where
  "encode_slot s =
     (case s of (v, ts) \<Rightarrow>
        JList [case v of None \<Rightarrow> JNull | Some x \<Rightarrow> JFloat x,
               case ts of None \<Rightarrow> JNull | Some t \<Rightarrow> JInt t])"

definition encode_cells :: "grid \<Rightarrow> (string \<times> json) list" where
  "encode_cells g =
     fold (\<lambda>((gy, gx), arr) acc. AList.update (key_of gy gx) (JList (map encode_slot arr)) acc)
       g []"

definition payload_obj :: "carrot_speed \<Rightarrow> json" where
  "payload_obj st =
     JObj [(''format'', JStr ''v4''), (''dir_buckets'', JInt buckets),
           (''cells'', JObj (encode_cells (cells st)))]"

definition encode_payload :: "py_runtime \<Rightarrow> carrot_speed \<Rightarrow> py_exn + byte list" where
  "encode_payload rt st =
     (let raw = json_dumps rt (payload_obj st)
      in if use_gzip st then gzip_compress rt (gzip_level st) raw else Inr raw)"

text \<open>\<^verbatim>\<open>int(x)\<close> and \<^verbatim>\<open>float(x)\<close> on a value that came out of \<^verbatim>\<open>json.loads\<close>.\<close>

definition py_int :: "py_runtime \<Rightarrow> json \<Rightarrow> py_exn + int" where
  "py_int rt x =
     (case x of
        JInt n \<Rightarrow> Inr n
      | JFloat r \<Rightarrow> Inr (if 0 \<le> r then \<lfloor>r\<rfloor> else \<lceil>r\<rceil>)
      | JBool b \<Rightarrow> Inr (if b then 1 else 0)
      | JStr s \<Rightarrow> int_of_str rt s
      | _ \<Rightarrow> Inl TypeError)"

definition py_float :: "py_runtime \<Rightarrow> json \<Rightarrow> py_exn + real" where
  "py_float rt x =
     (case x of
        JInt n \<Rightarrow> Inr (of_int n)
      | JFloat r \<Rightarrow> Inr r
      | JBool b \<Rightarrow> Inr (if b then 1 else 0)
      | JStr s \<Rightarrow> float_of_str rt s
      | _ \<Rightarrow> Inl TypeError)"

text \<open>\<^verbatim>\<open>gy, gx = map(int, key.split(","))\<close>.\<close>

definition parse_key :: "py_runtime \<Rightarrow> string \<Rightarrow> py_exn + cell_key" where
  "parse_key rt key =
     (case split_comma key of
        [a, b] \<Rightarrow>
          (case int_of_str rt a of
             Inl e \<Rightarrow> Inl e
           | Inr gy \<Rightarrow> (case int_of_str rt b of Inl e \<Rightarrow> Inl e | Inr gx \<Rightarrow> Inr (gy, gx)))
      | _ \<Rightarrow> Inl ValueError)"

text \<open>One entry of a stored cell: a two-element list is converted, anything else becomes
  the empty slot.\<close>

definition fix_pair :: "py_runtime \<Rightarrow> json \<Rightarrow> py_exn + slot" where
  "fix_pair rt pair =
     (case pair of
        JList [v, ts] \<Rightarrow>
          (case (if v = JNull then Inr None else map_sum id Some (py_float rt v)) of
             Inl e \<Rightarrow> Inl e
           | Inr v2 \<Rightarrow>
               (case (if ts = JNull then Inr None else map_sum id Some (py_int rt ts)) of
                  Inl e \<Rightarrow> Inl e
                | Inr ts2 \<Rightarrow> Inr (v2, ts2)))
      | _ \<Rightarrow> Inr (None, None))"

fun fix_pairs :: "py_runtime \<Rightarrow> json list \<Rightarrow> py_exn + slot list" where
  "fix_pairs rt [] = Inr []"
| "fix_pairs rt (pair # rest) =
     (case fix_pair rt pair of
        Inl e \<Rightarrow> Inl e
      | Inr s \<Rightarrow> (case fix_pairs rt rest of Inl e \<Rightarrow> Inl e | Inr ss \<Rightarrow> Inr (s # ss)))"

definition fix_cell :: "py_runtime \<Rightarrow> json \<Rightarrow> py_exn + slot list" where
  "fix_cell rt arr =
     (case arr of
        JList xs \<Rightarrow> if length xs = 8 then fix_pairs rt xs else Inr (replicate 8 (None, None))
      | _ \<Rightarrow> Inr (replicate 8 (None, None)))"

fun restore_cells :: "py_runtime \<Rightarrow> (string \<times> json) list \<Rightarrow> grid \<Rightarrow> py_exn + grid" where
  "restore_cells rt [] restored = Inr restored"
| "restore_cells rt ((key, arr) # rest) restored =
     (case parse_key rt key of
        Inl e \<Rightarrow> Inl e
      | Inr (gy, gx) \<Rightarrow>
          (case fix_cell rt arr of
             Inl e \<Rightarrow> Inl e
           | Inr fixed \<Rightarrow> restore_cells rt rest (AList.update (gy, gx) fixed restored)))"

text \<open>The first lines of the \<^verbatim>\<open>try\<close>: sniff the magic bytes, decompress, parse.\<close>

definition decode_payload :: "py_runtime \<Rightarrow> byte list \<Rightarrow> py_exn + json" where
  "decode_payload rt raw =
     (case (if is_gzip raw then gzip_decompress rt raw else Inr raw) of
        Inl e \<Rightarrow> Inl e
      | Inr data_bytes \<Rightarrow> json_loads rt data_bytes)"

text \<open>The body of the \<^verbatim>\<open>try\<close>: \<open>Inl\<close> is an exception raised inside it,
  \<open>Inr None\<close> one of the two early returns that discard a foreign payload,
  \<open>Inr (Some g)\<close> the restored grid.\<close>

definition load_try :: "py_runtime \<Rightarrow> byte list \<Rightarrow> py_exn + grid option" where
  "load_try rt raw =
     (case decode_payload rt raw of
        Inl e \<Rightarrow> Inl e
      | Inr (JObj data) \<Rightarrow>
          if map_of data ''format'' \<noteq> Some (JStr ''v4'') then Inr None
          else (case py_int rt (case map_of data ''dir_buckets'' of
                                  None \<Rightarrow> JInt 8 | Some x \<Rightarrow> x) of
                  Inl e \<Rightarrow> Inl e
                | Inr n \<Rightarrow>
                    if n \<noteq> 8 then Inr None
                    else (case map_of data ''cells'' of
                            None \<Rightarrow> map_sum id Some (restore_cells rt [] [])
                          | Some (JObj cs) \<Rightarrow> map_sum id Some (restore_cells rt cs [])
                          | Some _ \<Rightarrow> Inl AttributeError))
      | Inr _ \<Rightarrow> Inl AttributeError)"

definition load_from_params_if_exists :: "py_runtime \<Rightarrow> carrot_speed \<Rightarrow> carrot_speed" where
  "load_from_params_if_exists rt st =
     (case params_get (params st) KEY of
        None \<Rightarrow> st
      | Some raw \<Rightarrow>
          if raw = [] then st
          else (case load_try rt raw of
                  Inl e \<Rightarrow>
                    st\<lparr>params := params_delete (params st) KEY, cells := [], dirty := False\<rparr>
                | Inr None \<Rightarrow>
                    st\<lparr>params := params_remove (params st) KEY, cells := [], dirty := False\<rparr>
                | Inr (Some restored) \<Rightarrow> st\<lparr>cells := restored, dirty := False\<rparr>))"

definition save :: "py_runtime \<Rightarrow> carrot_speed \<Rightarrow> int \<Rightarrow> py_exn + carrot_speed" where
  "save rt st now =
     (case encode_payload rt st of
        Inl e \<Rightarrow> Inl e
      | Inr payload \<Rightarrow>
          Inr (st\<lparr>params := params_put_nonblocking (params st) KEY payload,
                  last_save := now, dirty := False\<rparr>))"

definition maybe_save :: "py_runtime \<Rightarrow> carrot_speed \<Rightarrow> int \<Rightarrow> int \<Rightarrow> py_exn + carrot_speed" where
  "maybe_save rt st now interval_s =
     (if \<not> dirty st \<or> now - last_save st < interval_s then Inr st else save rt st now)"

text \<open>\<^verbatim>\<open>close\<close>: a last save if dirty, an exception of the save swallowed.\<close>

definition close :: "py_runtime \<Rightarrow> carrot_speed \<Rightarrow> int \<Rightarrow> carrot_speed" where
  "close rt st now =
     (if dirty st then (case save rt st now of Inl e \<Rightarrow> st | Inr st' \<Rightarrow> st') else st)"

text \<open>The constructor: the fields, then the load, then the last-hit marker.\<close>

definition init :: "py_runtime \<Rightarrow> (string \<rightharpoonup> byte list) \<Rightarrow> int \<Rightarrow> int \<Rightarrow> bool \<Rightarrow> int
    \<Rightarrow> carrot_speed" where
  "init rt store ring threshold_s gz level =
     (load_from_params_if_exists rt
        \<lparr>neighbor_ring = max 0 ring, neighbor_old_threshold_s = threshold_s,
         use_gzip = gz, gzip_level = level, cells = [], dirty = False, last_save = 0,
         params = store, last_hit = None, last_hit_read_ms = 0\<rparr>)
       \<lparr>last_hit := None, last_hit_read_ms := 0\<rparr>"

text \<open>Every cell of a grid the object can hold has its eight slots.\<close>

definition wf_grid :: "grid \<Rightarrow> bool" where
  "wf_grid g = list_all (\<lambda>(k, arr). length arr = 8) g"

subsection \<open>Observing a slot\<close>

text \<open>The slot of cell \<open>k\<close> at bucket \<open>b\<close>, if the cell exists and the index is in range.\<close>

definition slot_at :: "carrot_speed \<Rightarrow> cell_key \<Rightarrow> int \<Rightarrow> slot option" where
  "slot_at st k b =
     (case map_of (cells st) k of
        None \<Rightarrow> None
      | Some arr \<Rightarrow> (case py_index arr b of Inl e \<Rightarrow> None | Inr j \<Rightarrow> Some (arr ! j)))"

text \<open>The slot \<^verbatim>\<open>add_sample\<close> leaves behind, from the slot it found (\<open>None\<close>: no cell yet),
  the rounded sample and the clock: the four branches of the source folded into one
  expression, to state lemmas against.\<close>

definition merge_slot :: "slot option \<Rightarrow> real \<Rightarrow> int \<Rightarrow> slot" where
  "merge_slot old v_in now =
     (case old of
        None \<Rightarrow> (Some v_in, Some now)
      | Some (None, ts_old) \<Rightarrow> (Some v_in, Some now)
      | Some (Some v_old, ts_old) \<Rightarrow>
          if 0 < v_in \<and> 0 \<le> v_old then (Some (py_round1 (float_mean v_old v_in)), ts_old)
          else (Some v_in, ts_old))"

text \<open>The object as the constructor leaves it on an empty store, with the default
  arguments.\<close>

definition fresh :: carrot_speed where
  "fresh = \<lparr>neighbor_ring = 1, neighbor_old_threshold_s = 120, use_gzip = True, gzip_level = 5,
     cells = [], dirty = False, last_save = 0, params = Map.empty, last_hit = None,
     last_hit_read_ms = 0\<rparr>"

text \<open>The same object after the sample 15.0 at latitude 37.5, longitude 127, heading 90
  and second 1000: one cell, its bucket 2 written.\<close>

definition seeded :: carrot_speed where
  "seeded = fresh\<lparr>cells := [((375000, 1270000), empty_cell[2 := (Some 15, Some 1000)])],
                  dirty := True\<rparr>"

subsection \<open>A stand-in runtime for the examples\<close>

text \<open>\<^verbatim>\<open>int(s)\<close> on a plain decimal numeral: an optional minus sign, then digits.\<close>

definition digit_of_char :: "char \<Rightarrow> nat option" where
  "digit_of_char = map_of (zip ''0123456789'' [0, 1, 2, 3, 4, 5, 6, 7, 8, 9])"

fun nat_of_digits :: "nat \<Rightarrow> string \<Rightarrow> nat option" where
  "nat_of_digits acc [] = Some acc"
| "nat_of_digits acc (c # cs) =
     (case digit_of_char c of None \<Rightarrow> None | Some d \<Rightarrow> nat_of_digits (10 * acc + d) cs)"

definition int_of_decimal :: "string \<Rightarrow> py_exn + int" where
  "int_of_decimal s =
     (case s of
        [] \<Rightarrow> Inl ValueError
      | c # cs \<Rightarrow>
          if c = CHR ''-''
          then (if cs = [] then Inl ValueError
                else case nat_of_digits 0 cs of
                       None \<Rightarrow> Inl ValueError | Some n \<Rightarrow> Inr (- int n))
          else (case nat_of_digits 0 s of None \<Rightarrow> Inl ValueError | Some n \<Rightarrow> Inr (int n)))"

text \<open>The examples do not model JSON text or the gzip format: the stand-in
  \<^verbatim>\<open>json.loads\<close> returns the document \<open>doc\<close> for any bytes, \<^verbatim>\<open>json.dumps\<close> a single
  brace, and compression only prepends the two magic bytes.\<close>

definition demo_runtime :: "json \<Rightarrow> py_runtime" where
  "demo_runtime doc =
     \<lparr>gzip_compress = (\<lambda>level raw. Inr (0x1F # 0x8B # raw)),
      gzip_decompress = (\<lambda>z. Inr (drop 2 z)),
      json_dumps = (\<lambda>j. [0x7B]),
      json_loads = (\<lambda>bs. Inr doc),
      int_of_str = int_of_decimal,
      float_of_str = (\<lambda>s. Inl ValueError)\<rparr>"

text \<open>A fresh object over a store that holds some payload under the key.\<close>

definition stored :: carrot_speed where
  "stored = fresh\<lparr>params := [KEY \<mapsto> [0x7B]]\<rparr>"

text \<open>A payload document with the given format tag, bucket count and cells.\<close>

definition doc_of :: "json \<Rightarrow> json \<Rightarrow> (string \<times> json) list \<Rightarrow> json" where
  "doc_of fmt nb cs = JObj [(''format'', fmt), (''dir_buckets'', nb), (''cells'', JObj cs)]"

text \<open>A stored cell whose bucket 2 holds the pair \<^verbatim>\<open>[5.0, null]\<close>, and a payload of that
  one cell.\<close>

definition half_cell :: json where
  "half_cell =
     JList [JList [JNull, JNull], JList [JNull, JNull], JList [JFloat 5, JNull],
            JList [JNull, JNull], JList [JNull, JNull], JList [JNull, JNull],
            JList [JNull, JNull], JList [JNull, JNull]]"

definition half_doc :: json where
  "half_doc = doc_of (JStr ''v4'') (JInt 8) [(''375000,1270000'', half_cell)]"

text \<open>The same cell under the bucket count 8.5.\<close>

definition frac_doc :: json where
  "frac_doc = doc_of (JStr ''v4'') (JFloat (17 / 2)) [(''375000,1270000'', half_cell)]"

text \<open>A stored cell of eight entries, the first a pair \<^verbatim>\<open>[5.0, 100]\<close>, the second the
  bare number 7, and a payload of that one cell.\<close>

definition mixed_cell :: json where
  "mixed_cell =
     JList [JList [JFloat 5, JInt 100], JInt 7, JList [JNull, JNull],
            JList [JNull, JNull], JList [JNull, JNull], JList [JNull, JNull],
            JList [JNull, JNull], JList [JNull, JNull]]"

definition mixed_doc :: json where
  "mixed_doc = doc_of (JStr ''v4'') (JInt 8) [(''375000,1270000'', mixed_cell)]"

text \<open>Whether a stored entry is a two-element list.\<close>

fun is_pair :: "json \<Rightarrow> bool" where
  "is_pair (JList [v, ts]) = True"
| "is_pair j = False"

subsection \<open>The search as the specification words it\<close>

text \<open>The specification's candidate distances: \<open>d\<close>, \<open>d + 3\<close>, \<open>d - 3\<close> if not
  negative, \<open>d + 6\<close>, \<open>d - 6\<close> if not negative.\<close>

definition spec_cand_ds :: "real \<Rightarrow> real list" where
  "spec_cand_ds d =
     [d, d + 3] @ (if 0 \<le> d - 3 then [d - 3] else []) @ [d + 6] @
     (if 0 \<le> d - 6 then [d - 6] else [])"

text \<open>The buckets tried in a cell, the cells tried at a point (the home cell, then its
  eight neighbours with \<open>dy\<close> outside and \<open>dx\<close> inside), and all the probes of a query in
  their order.\<close>

definition bucket_order :: "int \<Rightarrow> int list" where
  "bucket_order b = [b mod 8, (b - 1) mod 8, (b + 1) mod 8]"

definition cell_order :: "bool \<Rightarrow> cell_key \<Rightarrow> cell_key list" where
  "cell_order neighbor_fallback k =
     k # (if neighbor_fallback
          then map (\<lambda>(dy, dx). (fst k + dy, snd k + dx))
                 [(- 1, - 1), (- 1, 0), (- 1, 1), (0, - 1), (0, 1), (1, - 1), (1, 0), (1, 1)]
          else [])"

definition point_probes :: "bool \<Rightarrow> int \<Rightarrow> cell_key \<Rightarrow> (cell_key \<times> int) list" where
  "point_probes neighbor_fallback b k =
     concat (map (\<lambda>c. map (Pair c) (bucket_order b)) (cell_order neighbor_fallback k))"

definition probes :: "real \<Rightarrow> real \<Rightarrow> real \<Rightarrow> real \<Rightarrow> bool \<Rightarrow> (cell_key \<times> int) list" where
  "probes lat lon heading_deg d neighbor_fallback =
     concat (map (\<lambda>dm. point_probes neighbor_fallback (heading_to_bucket heading_deg)
                          (case project_point lat lon heading_deg dm of
                             (y, x) \<Rightarrow> quantize_1e4 y x))
               (spec_cand_ds d))"

text \<open>The first probe whose slot has a value and a timestamp at least the threshold
  old.\<close>

fun first_match :: "carrot_speed \<Rightarrow> int \<Rightarrow> (cell_key \<times> int) list \<Rightarrow> hit option" where
  "first_match st now [] = None"
| "first_match st now ((k, bi) # ps) =
     (case slot_at st k bi of
        Some (Some v, Some ts) \<Rightarrow>
          if neighbor_old_threshold_s st \<le> now - ts then Some (v, fst k, snd k, bi)
          else first_match st now ps
      | _ \<Rightarrow> first_match st now ps)"

subsection \<open>The last-hit marker\<close>

text \<open>A marker written by a query names a bucket between 0 and 7.\<close>

definition marker_ok :: "carrot_speed \<Rightarrow> bool" where
  "marker_ok st =
     (case last_hit st of None \<Rightarrow> True | Some (gy, gx, b, read_ts) \<Rightarrow> 0 \<le> b \<and> b < 8)"

text \<open>The seeded object after a query at second 1121 hit its slot and
  \<^verbatim>\<open>invalidate_last_hit\<close> cleared it.\<close>

definition cleared :: carrot_speed where
  "cleared = seeded\<lparr>cells := [((375000, 1270000), empty_cell)], dirty := True,
     last_hit := Some (375000, 1270000, 2, 1121), last_hit_read_ms := 1121000\<rparr>"

subsection \<open>The round trip\<close>

text \<open>The entry of the cells object that \<^verbatim>\<open>_encode_payload\<close> writes for one cell.\<close>

definition encode_cell :: "cell_key \<times> slot list \<Rightarrow> string \<times> json" where
  "encode_cell c = (case c of ((gy, gx), arr) \<Rightarrow> (key_of gy gx, JList (map encode_slot arr)))"

text \<open>The runtime's \<^verbatim>\<open>int\<close> reads back the decimal text of every cell coordinate of the
  grid.\<close>

definition keys_parse :: "py_runtime \<Rightarrow> grid \<Rightarrow> bool" where
  "keys_parse rt g =
     list_all (\<lambda>((gy, gx), arr). int_of_str rt (str_of_int gy) = Inr gy \<and>
                                 int_of_str rt (str_of_int gx) = Inr gx) g"

subsection \<open>The states the object can be in\<close>

text \<open>What holds of every state: each cell has eight slots, the cells are a dict, the
  marker names a bucket.\<close>

definition state_ok :: "carrot_speed \<Rightarrow> bool" where
  "state_ok st = (wf_grid (cells st) \<and> distinct (map fst (cells st)) \<and> marker_ok st)"

text \<open>The states reached from the constructor by the public operations that return.\<close>

inductive reachable :: "py_runtime \<Rightarrow> carrot_speed \<Rightarrow> bool" for rt :: py_runtime where
  r_init: "reachable rt (init rt store ring threshold_s gz level)"
| r_add: "reachable rt st \<Longrightarrow> add_sample st now lat lon h speed = Inr st' \<Longrightarrow> reachable rt st'"
| r_query: "reachable rt st \<Longrightarrow> query_target_dist st now now_ms lat lon h d nf = Inr (v, st')
     \<Longrightarrow> reachable rt st'"
| r_invalidate: "reachable rt st \<Longrightarrow> invalidate_last_hit st now w act = Inr (r, st')
     \<Longrightarrow> reachable rt st'"
| r_save: "reachable rt st \<Longrightarrow> maybe_save rt st now interval_s = Inr st' \<Longrightarrow> reachable rt st'"
| r_save_now: "reachable rt st \<Longrightarrow> save rt st now = Inr st' \<Longrightarrow> reachable rt st'"
| r_close: "reachable rt st \<Longrightarrow> reachable rt (close rt st now)"

section \<open>Properties\<close>

subsection \<open>Indexing and well-formed grids\<close>

lemma heading_to_bucket_range: "0 \<le> heading_to_bucket h \<and> heading_to_bucket h \<le> 7"
  by (simp add: heading_to_bucket_def Let_def)

lemma bucket_nat_lt: "nat (heading_to_bucket h) < 8"
  using heading_to_bucket_range [of h] by arith

lemma py_index_in_range: "0 \<le> i \<Longrightarrow> i < int (length xs) \<Longrightarrow> py_index xs i = Inr (nat i)"
  by (simp add: py_index_def)

lemma py_index_bucket:
  "length arr = 8 \<Longrightarrow> py_index arr (heading_to_bucket h) = Inr (nat (heading_to_bucket h))"
  using heading_to_bucket_range [of h] by (simp add: py_index_in_range)

lemma wf_grid_lookup: "wf_grid g \<Longrightarrow> map_of g k = Some arr \<Longrightarrow> length arr = 8"
  by (auto simp: wf_grid_def list_all_iff dest!: map_of_SomeD)

lemma wf_grid_update: "wf_grid g \<Longrightarrow> length arr = 8 \<Longrightarrow> wf_grid (AList.update k arr g)"
  by (induction g) (auto simp: wf_grid_def)

lemma slot_at_put_slot:
  "j < length arr \<Longrightarrow> py_index arr b = Inr j \<Longrightarrow>
   slot_at ((put_slot st k arr j s)\<lparr>dirty := d\<rparr>) k b = Some s"
  by (simp add: slot_at_def put_slot_def update_conv' py_index_def Let_def split: if_splits)

subsection \<open>Rounding\<close>

lemma round_half_even_small:
  assumes "\<bar>y\<bar> \<le> 1 / 2"
  shows "round_half_even y = 0"
proof (cases "0 \<le> y")
  case True
  then have f: "\<lfloor>y\<rfloor> = 0" using assms by (simp add: floor_eq_iff)
  show ?thesis using assms True by (simp add: round_half_even_def f)
next
  case False
  then have f: "\<lfloor>y\<rfloor> = - 1" using assms by (simp add: floor_eq_iff)
  show ?thesis using assms False by (simp add: round_half_even_def f Let_def)
qed

lemma round_half_even_zeroD:
  fixes f :: int and y :: real
  assumes "of_int f \<le> y" and "y < of_int f + 1"
    and "(if y - of_int f < 1 / 2 then f
          else if 1 / 2 < y - of_int f then f + 1 else if even f then f else f + 1) = 0"
  shows "\<bar>y\<bar> \<le> 1 / 2"
proof -
  have "f = 0 \<or> f = - 1" using assms(3) by (auto split: if_splits)
  then show ?thesis using assms by (auto split: if_splits)
qed

lemma round_half_even_zero_le_half:
  assumes "round_half_even y = 0"
  shows "\<bar>y\<bar> \<le> 1 / 2"
proof -
  have lo: "of_int \<lfloor>y\<rfloor> \<le> y" and hi: "y < of_int \<lfloor>y\<rfloor> + 1" by linarith+
  show ?thesis
    using lo hi assms [unfolded round_half_even_def Let_def] by (rule round_half_even_zeroD)
qed

lemma round_half_even_nonzero: "1 \<le> \<bar>y\<bar> \<Longrightarrow> round_half_even y \<noteq> 0"
  using round_half_even_zero_le_half [of y] by auto

lemma round1_small: "\<bar>speed\<bar> \<le> 1 / 20 \<Longrightarrow> round1 speed = 0"
  by (simp add: round1_def round_half_even_small)

lemma round1_zero_iff: "(round1 speed = 0) = (\<bar>speed\<bar> \<le> 1 / 20)"
proof
  assume "\<bar>speed\<bar> \<le> 1 / 20"
  then show "round1 speed = 0" by (rule round1_small)
next
  assume z: "round1 speed = 0"
  then have r: "round_half_even (speed * 10) = 0" by (simp add: round1_def)
  then have "\<bar>speed * 10\<bar> \<le> 1 / 2" by (rule round_half_even_zero_le_half)
  then show "\<bar>speed\<bar> \<le> 1 / 20" by simp
qed

lemma round1_samples:
  "round1 5 = 5" "round1 7 = 7" "round1 (- 3) = - 3" "round1 6 = 6" "round1 15 = 15"
  "round1 (151 / 10) = 151 / 10"
  by (simp_all add: round1_def round_half_even_def)

lemma bit_length_bounds: "2 ^ k \<le> n \<Longrightarrow> n < 2 ^ Suc k \<Longrightarrow> bit_length n = Suc k"
proof (induction k arbitrary: n)
  case 0
  then have "n = 1" by simp
  then show ?case by (simp add: bit_length.simps)
next
  case (Suc k)
  have "2 ^ k \<le> n div 2" using Suc.prems by simp
  moreover have "n div 2 < 2 ^ Suc k" using Suc.prems by simp
  ultimately have "bit_length (n div 2) = Suc k" by (rule Suc.IH)
  moreover have "n \<noteq> 0" using Suc.prems by auto
  ultimately show ?case by (subst bit_length.simps) simp
qed

lemma bit_length_pos_bounds:
  "n \<noteq> 0 \<Longrightarrow> 2 ^ (bit_length n - 1) \<le> n \<and> n < 2 ^ bit_length n"
proof (induction n rule: bit_length.induct)
  case (1 n)
  show ?case
  proof (cases "n div 2 = 0")
    case True
    then have "n = 1" using "1.prems" by (cases n) auto
    then show ?thesis by (simp add: bit_length.simps)
  next
    case False
    have ih: "2 ^ (bit_length (n div 2) - 1) \<le> n div 2 \<and> n div 2 < 2 ^ bit_length (n div 2)"
      using "1.prems" False by (rule "1.IH")
    have pos: "bit_length (n div 2) \<noteq> 0" using False by (subst bit_length.simps) simp
    have bl: "bit_length n = Suc (bit_length (n div 2))"
      using "1.prems" by (subst bit_length.simps) simp
    have "2 * 2 ^ (bit_length (n div 2) - 1) \<le> n" using ih by linarith
    moreover have "2 * 2 ^ (bit_length (n div 2) - 1) = (2::nat) ^ bit_length (n div 2)"
      using pos by (cases "bit_length (n div 2)") simp_all
    moreover have "n < 2 * 2 ^ bit_length (n div 2)" using ih by linarith
    ultimately show ?thesis by (simp add: bl)
  qed
qed

lemma floor_pow_bounds:
  assumes lo: "2 ^ n \<le> y" and hi: "y < 2 ^ Suc n"
  shows "2 ^ n \<le> nat \<lfloor>y::real\<rfloor> \<and> nat \<lfloor>y\<rfloor> < 2 ^ Suc n"
proof -
  have a: "(2::int) ^ n \<le> \<lfloor>y\<rfloor>"
  proof -
    have "of_int ((2::int) ^ n) \<le> y" using lo by simp
    then show ?thesis by (simp only: le_floor_iff)
  qed
  have b: "\<lfloor>y\<rfloor> < (2::int) ^ Suc n"
  proof -
    have "y < of_int ((2::int) ^ Suc n)" using hi by simp
    then show ?thesis by (simp only: floor_less_iff)
  qed
  have c: "int (nat \<lfloor>y\<rfloor>) = \<lfloor>y\<rfloor>"
  proof -
    have "(0::int) \<le> 2 ^ n" by simp
    then have "0 \<le> \<lfloor>y\<rfloor>" using a by linarith
    then show ?thesis by simp
  qed
  have "int (2 ^ n) \<le> int (nat \<lfloor>y\<rfloor>)" using a c by simp
  then have l: "2 ^ n \<le> nat \<lfloor>y\<rfloor>" by (simp only: of_nat_le_iff)
  have "int (nat \<lfloor>y\<rfloor>) < int (2 ^ Suc n)" using b c by simp
  then have h: "nat \<lfloor>y\<rfloor> < 2 ^ Suc n" by (simp only: of_nat_less_iff)
  show ?thesis using l h by blast
qed

lemma binexp_eval:
  assumes lo: "2 ^ n \<le> \<bar>x\<bar>" and hi: "\<bar>x\<bar> < 2 ^ Suc n"
  shows "binexp x = int n"
proof -
  have "(1::real) \<le> 2 ^ n" by simp
  then have one: "1 \<le> \<bar>x\<bar>" using lo by linarith
  have "2 ^ n \<le> nat \<lfloor>\<bar>x\<bar>\<rfloor> \<and> nat \<lfloor>\<bar>x\<bar>\<rfloor> < 2 ^ Suc n"
    using lo hi by (rule floor_pow_bounds)
  then have "bit_length (nat \<lfloor>\<bar>x\<bar>\<rfloor>) = Suc n" by (simp only: bit_length_bounds)
  then show ?thesis using one by (simp add: binexp_def)
qed

lemma binexp_eval_small:
  assumes lo: "1 / 2 ^ Suc m \<le> \<bar>x\<bar>" and hi: "\<bar>x\<bar> < 1 / 2 ^ m"
  shows "binexp x = - int (Suc m)"
proof -
  have pos: "0 < \<bar>x\<bar>"
  proof -
    have "(0::real) < 1 / 2 ^ Suc m" by simp
    then show ?thesis using lo by linarith
  qed
  have "(1::real) / 2 ^ m \<le> 1" by simp
  then have small: "\<not> 1 \<le> \<bar>x\<bar>" using hi by linarith
  have a: "2 ^ m < 1 / \<bar>x\<bar>"
    using hi pos by (simp add: field_simps)
  have b: "1 / \<bar>x\<bar> \<le> 2 ^ Suc m"
    using lo pos by (simp add: field_simps)
  have "of_int ((2::int) ^ m) < 1 / \<bar>x\<bar>" using a by simp
  then have c1: "(2::int) ^ m < \<lceil>1 / \<bar>x\<bar>\<rceil>" by (simp only: less_ceiling_iff)
  have "1 / \<bar>x\<bar> \<le> of_int ((2::int) ^ Suc m)" using b by simp
  then have c2: "\<lceil>1 / \<bar>x\<bar>\<rceil> \<le> (2::int) ^ Suc m" by (simp only: ceiling_le_iff)
  have nn: "0 \<le> \<lceil>1 / \<bar>x\<bar>\<rceil> - 1"
  proof -
    have "(0::int) < 2 ^ m" by simp
    then show ?thesis using c1 by linarith
  qed
  have c: "int (nat (\<lceil>1 / \<bar>x\<bar>\<rceil> - 1)) = \<lceil>1 / \<bar>x\<bar>\<rceil> - 1" using nn by simp
  have "int (2 ^ m) \<le> int (nat (\<lceil>1 / \<bar>x\<bar>\<rceil> - 1))" using c1 c by simp
  then have l: "2 ^ m \<le> nat (\<lceil>1 / \<bar>x\<bar>\<rceil> - 1)" by (simp only: of_nat_le_iff)
  have "int (nat (\<lceil>1 / \<bar>x\<bar>\<rceil> - 1)) < int (2 ^ Suc m)" using c2 c by simp
  then have h: "nat (\<lceil>1 / \<bar>x\<bar>\<rceil> - 1) < 2 ^ Suc m" by (simp only: of_nat_less_iff)
  have "bit_length (nat (\<lceil>1 / \<bar>x\<bar>\<rceil> - 1)) = Suc m" using l h by (rule bit_length_bounds)
  then show ?thesis using small by (simp add: binexp_def)
qed

lemma to_double_0: "to_double 0 = 0"
  by (simp add: to_double_def)

lemma to_double_eval:
  assumes lo: "2 ^ n \<le> \<bar>x\<bar>" and hi: "\<bar>x\<bar> < 2 ^ Suc n" and n: "n \<le> 52"
  shows "to_double x = of_int (round_half_even (x * 2 ^ (52 - n))) / 2 ^ (52 - n)"
proof -
  have nz: "x \<noteq> 0"
  proof
    assume "x = 0"
    then have "(2::real) ^ n \<le> 0" using lo by simp
    moreover have "(0::real) < 2 ^ n" by (rule zero_less_power) simp
    ultimately show False by linarith
  qed
  have s: "nat (52 - int n) = 52 - n" using n by simp
  have b: "binexp x = int n" using lo hi by (rule binexp_eval)
  have p: "0 \<le> 52 - int n" using n by simp
  show ?thesis
    unfolding to_double_def b Let_def using nz p s by simp
qed

lemma to_double_eval_big:
  assumes lo: "2 ^ n \<le> \<bar>x\<bar>" and hi: "\<bar>x\<bar> < 2 ^ Suc n" and n: "52 < n"
  shows "to_double x = of_int (round_half_even (x / 2 ^ (n - 52))) * 2 ^ (n - 52)"
proof -
  have nz: "x \<noteq> 0"
  proof
    assume "x = 0"
    then have "(2::real) ^ n \<le> 0" using lo by simp
    moreover have "(0::real) < 2 ^ n" by (rule zero_less_power) simp
    ultimately show False by linarith
  qed
  have s: "nat (- (52 - int n)) = n - 52" using n by simp
  have b: "binexp x = int n" using lo hi by (rule binexp_eval)
  have p: "\<not> 0 \<le> 52 - int n" using n by simp
  show ?thesis
    unfolding to_double_def b Let_def using nz p s by simp
qed

lemma to_double_eval_small:
  assumes lo: "1 / 2 ^ Suc m \<le> \<bar>x\<bar>" and hi: "\<bar>x\<bar> < 1 / 2 ^ m"
  shows "to_double x = of_int (round_half_even (x * 2 ^ (53 + m))) / 2 ^ (53 + m)"
proof -
  have nz: "x \<noteq> 0"
  proof
    assume "x = 0"
    then have "(1::real) / 2 ^ Suc m \<le> 0" using lo by simp
    moreover have "(0::real) < 1 / 2 ^ Suc m" by simp
    ultimately show False by linarith
  qed
  have b: "binexp x = - int (Suc m)" using lo hi by (rule binexp_eval_small)
  have s: "nat (52 - - int (Suc m)) = 53 + m" by simp
  have p: "0 \<le> 52 - - int (Suc m)" by simp
  show ?thesis
    unfolding to_double_def b Let_def using nz p s by simp
qed

lemma binade_ge_one:
  fixes x :: real
  assumes "1 \<le> \<bar>x\<bar>"
  shows "\<exists>n. 2 ^ n \<le> \<bar>x\<bar> \<and> \<bar>x\<bar> < 2 ^ Suc n"
proof -
  let ?m = "nat \<lfloor>\<bar>x\<bar>\<rfloor>"
  have f: "1 \<le> \<lfloor>\<bar>x\<bar>\<rfloor>" using assms by (simp add: le_floor_iff)
  then have m0: "?m \<noteq> 0" by simp
  have im: "int ?m = \<lfloor>\<bar>x\<bar>\<rfloor>" using f by simp
  have b: "2 ^ (bit_length ?m - 1) \<le> ?m \<and> ?m < 2 ^ bit_length ?m"
    using m0 by (rule bit_length_pos_bounds)
  have pos: "bit_length ?m \<noteq> 0" using m0 by (subst bit_length.simps) simp
  then have sn: "Suc (bit_length ?m - 1) = bit_length ?m" by simp
  have lo: "real ?m \<le> \<bar>x\<bar>"
  proof -
    have "real_of_int \<lfloor>\<bar>x\<bar>\<rfloor> \<le> \<bar>x\<bar>" by (rule of_int_floor_le)
    then show ?thesis using im by (metis of_int_of_nat_eq)
  qed
  have hi: "\<bar>x\<bar> < real ?m + 1"
  proof -
    have "\<bar>x\<bar> < real_of_int \<lfloor>\<bar>x\<bar>\<rfloor> + 1" by linarith
    then show ?thesis using im by (metis of_int_of_nat_eq)
  qed
  have "2 ^ (bit_length ?m - 1) \<le> ?m" using b by (rule conjunct1)
  then have r1: "real (2 ^ (bit_length ?m - 1)) \<le> real ?m" by (simp only: of_nat_le_iff)
  have l: "2 ^ (bit_length ?m - 1) \<le> \<bar>x\<bar>"
  proof -
    have "(2::real) ^ (bit_length ?m - 1) = real (2 ^ (bit_length ?m - 1))" by simp
    also have "\<dots> \<le> real ?m" by (rule r1)
    also have "\<dots> \<le> \<bar>x\<bar>" by (rule lo)
    finally show ?thesis .
  qed
  have "?m < 2 ^ bit_length ?m" using b by (rule conjunct2)
  then have "Suc ?m \<le> 2 ^ bit_length ?m" by (rule Suc_leI)
  then have r2: "real (Suc ?m) \<le> real (2 ^ bit_length ?m)" by (simp only: of_nat_le_iff)
  have h: "\<bar>x\<bar> < 2 ^ Suc (bit_length ?m - 1)"
  proof -
    have "\<bar>x\<bar> < real ?m + 1" by (rule hi)
    also have "\<dots> = real (Suc ?m)" by simp
    also have "\<dots> \<le> real (2 ^ bit_length ?m)" by (rule r2)
    also have "\<dots> = 2 ^ Suc (bit_length ?m - 1)" unfolding sn by simp
    finally show ?thesis .
  qed
  show ?thesis using l h by blast
qed

lemma binade_lt_one:
  fixes x :: real
  assumes nz: "x \<noteq> 0" and small: "\<bar>x\<bar> < 1"
  shows "\<exists>m. 1 / 2 ^ Suc m \<le> \<bar>x\<bar> \<and> \<bar>x\<bar> < 1 / 2 ^ m"
proof -
  let ?y = "1 / \<bar>x\<bar>"
  let ?c = "nat (\<lceil>?y\<rceil> - 1)"
  have pos: "0 < \<bar>x\<bar>" using nz by simp
  have y1: "1 < ?y" using pos small by (simp add: field_simps)
  have c2: "2 \<le> \<lceil>?y\<rceil>"
  proof -
    have "?y \<le> real_of_int \<lceil>?y\<rceil>" by (rule le_of_int_ceiling)
    then have "real_of_int 1 < real_of_int \<lceil>?y\<rceil>" using y1 by simp
    then have "1 < \<lceil>?y\<rceil>" by (simp only: of_int_less_iff)
    then show ?thesis by linarith
  qed
  have pc: "0 < \<lceil>?y\<rceil> - 1" using c2 by linarith
  then have "0 < ?c" by (simp only: zero_less_nat_eq)
  then have c0: "?c \<noteq> 0" by (rule gr_implies_not0)
  have nn: "0 \<le> \<lceil>?y\<rceil> - 1" using c2 by linarith
  have ic: "int ?c = \<lceil>?y\<rceil> - 1" by (simp only: int_nat_eq nn if_True)
  have b: "2 ^ (bit_length ?c - 1) \<le> ?c \<and> ?c < 2 ^ bit_length ?c"
    using c0 by (rule bit_length_pos_bounds)
  have bp: "bit_length ?c \<noteq> 0" using c0 by (subst bit_length.simps) simp
  then have sn: "Suc (bit_length ?c - 1) = bit_length ?c" by simp
  have "2 ^ (bit_length ?c - 1) \<le> ?c" using b by (rule conjunct1)
  then have r1: "real (2 ^ (bit_length ?c - 1)) \<le> real ?c" by (simp only: of_nat_le_iff)
  have cy: "real ?c < ?y"
  proof -
    have "real ?c = real_of_int (int ?c)" by simp
    also have "\<dots> = real_of_int (\<lceil>?y\<rceil> - 1)" by (simp only: ic)
    also have "\<dots> < ?y" by linarith
    finally show ?thesis .
  qed
  have lo: "2 ^ (bit_length ?c - 1) < ?y"
  proof -
    have "(2::real) ^ (bit_length ?c - 1) = real (2 ^ (bit_length ?c - 1))" by simp
    also have "\<dots> \<le> real ?c" by (rule r1)
    also have "\<dots> < ?y" by (rule cy)
    finally show ?thesis .
  qed
  have "?c < 2 ^ bit_length ?c" using b by (rule conjunct2)
  then have "Suc ?c \<le> 2 ^ bit_length ?c" by (rule Suc_leI)
  then have r2: "real (Suc ?c) \<le> real (2 ^ bit_length ?c)" by (simp only: of_nat_le_iff)
  have yc: "?y \<le> real (Suc ?c)"
  proof -
    have "?y \<le> real_of_int \<lceil>?y\<rceil>" by (rule le_of_int_ceiling)
    also have "\<dots> = real_of_int (int ?c + 1)" by (simp only: ic)
    also have "\<dots> = real (Suc ?c)" by simp
    finally show ?thesis .
  qed
  have hi: "?y \<le> 2 ^ Suc (bit_length ?c - 1)"
  proof -
    have "?y \<le> real (Suc ?c)" by (rule yc)
    also have "\<dots> \<le> real (2 ^ bit_length ?c)" by (rule r2)
    also have "\<dots> = 2 ^ Suc (bit_length ?c - 1)" unfolding sn by simp
    finally show ?thesis .
  qed
  have a: "\<bar>x\<bar> < 1 / 2 ^ (bit_length ?c - 1)"
    using lo pos by (simp add: field_simps)
  have d: "1 / 2 ^ Suc (bit_length ?c - 1) \<le> \<bar>x\<bar>"
    using hi pos by (simp add: field_simps)
  show ?thesis using a d by blast
qed

lemma to_double_nonzero:
  assumes nz: "x \<noteq> 0"
  shows "to_double x \<noteq> 0"
proof (cases "1 \<le> \<bar>x\<bar>")
  case True
  then obtain n where lo: "2 ^ n \<le> \<bar>x\<bar>" and hi: "\<bar>x\<bar> < 2 ^ Suc n"
    using binade_ge_one by blast
  show ?thesis
  proof (cases "n \<le> 52")
    case le: True
    have "(1::real) \<le> 2 ^ (52 - n)" by simp
    then have "1 * 1 \<le> \<bar>x\<bar> * 2 ^ (52 - n)" using True by (intro mult_mono) simp_all
    then have "1 \<le> \<bar>x * 2 ^ (52 - n)\<bar>" by (simp add: abs_mult)
    then have "round_half_even (x * 2 ^ (52 - n)) \<noteq> 0" by (rule round_half_even_nonzero)
    then show ?thesis using to_double_eval [OF lo hi le] by simp
  next
    case False
    then have gt: "52 < n" by simp
    have "(2::real) ^ (n - 52) \<le> 2 ^ n" by (rule power_increasing) simp_all
    then have "2 ^ (n - 52) \<le> \<bar>x\<bar>" using lo by linarith
    then have "1 \<le> \<bar>x\<bar> / 2 ^ (n - 52)" by (simp add: field_simps)
    then have "1 \<le> \<bar>x / 2 ^ (n - 52)\<bar>" by (simp add: abs_divide)
    then have "round_half_even (x / 2 ^ (n - 52)) \<noteq> 0" by (rule round_half_even_nonzero)
    then show ?thesis using to_double_eval_big [OF lo hi gt] by simp
  qed
next
  case False
  then have "\<bar>x\<bar> < 1" by simp
  then obtain m where lo: "1 / 2 ^ Suc m \<le> \<bar>x\<bar>" and hi: "\<bar>x\<bar> < 1 / 2 ^ m"
    using binade_lt_one [OF nz] by blast
  have "(2::real) ^ Suc m \<le> 2 ^ (53 + m)" by (rule power_increasing) simp_all
  moreover have "1 \<le> \<bar>x\<bar> * 2 ^ Suc m" using lo by (simp add: field_simps)
  ultimately have "1 \<le> \<bar>x\<bar> * 2 ^ (53 + m)"
  proof -
    assume a: "(2::real) ^ Suc m \<le> 2 ^ (53 + m)" and b: "1 \<le> \<bar>x\<bar> * 2 ^ Suc m"
    have "\<bar>x\<bar> * 2 ^ Suc m \<le> \<bar>x\<bar> * 2 ^ (53 + m)" using a by (intro mult_left_mono) simp_all
    then show ?thesis using b by linarith
  qed
  then have "1 \<le> \<bar>x * 2 ^ (53 + m)\<bar>" by (simp add: abs_mult)
  then have "round_half_even (x * 2 ^ (53 + m)) \<noteq> 0" by (rule round_half_even_nonzero)
  then show ?thesis using to_double_eval_small [OF lo hi] by simp
qed

lemma py_round1_zero_iff: "(py_round1 speed = 0) = (round1 speed = 0)"
  using to_double_nonzero [of "round1 speed"] by (auto simp: py_round1_def to_double_def)

lemma to_double_samples:
  "to_double 5 = 5" "to_double 7 = 7" "to_double 6 = 6" "to_double 12 = 12"
  "to_double 15 = 15" "to_double (- 3) = - 3"
proof -
  show "to_double 5 = 5"
    by (subst to_double_eval [where n = 2]) (simp_all add: round_half_even_def)
  show "to_double 7 = 7"
    by (subst to_double_eval [where n = 2]) (simp_all add: round_half_even_def)
  show "to_double 6 = 6"
    by (subst to_double_eval [where n = 2]) (simp_all add: round_half_even_def)
  show "to_double 12 = 12"
    by (subst to_double_eval [where n = 3]) (simp_all add: round_half_even_def)
  show "to_double 15 = 15"
    by (subst to_double_eval [where n = 3]) (simp_all add: round_half_even_def)
  show "to_double (- 3) = - 3"
    by (subst to_double_eval [where n = 1]) (simp_all add: round_half_even_def)
qed

lemma py_round1_samples:
  "py_round1 5 = 5" "py_round1 7 = 7" "py_round1 (- 3) = - 3" "py_round1 6 = 6"
  "py_round1 15 = 15"
  by (simp_all add: py_round1_def round1_samples to_double_samples)

lemma float_mean_5_7: "float_mean 5 7 = 6"
  by (simp add: float_mean_def to_double_samples)

text \<open>The double nearest to 15.1 lies below it; the float mean of 15.0 and that double
  lies above 15.05 and rounds to 15.1, where the mean of the decimals would be the tie
  15.05 and round to 15.0.\<close>

lemma to_double_15_1: "to_double (151 / 10) = 8500544296661811 / 2 ^ 49"
  by (subst to_double_eval [where n = 3]) (simp_all add: round_half_even_def)

lemma py_round1_15_1: "py_round1 (151 / 10) = to_double (151 / 10)"
  by (simp add: py_round1_def round1_samples)

lemma to_double_15_1_facts: "0 < to_double (151 / 10)" "to_double (151 / 10) \<noteq> 15"
  "to_double (151 / 10) < 151 / 10"
  by (simp_all add: to_double_15_1)

lemma float_sum_15_15_1: "to_double (15 + 8500544296661811 / 2 ^ 49) = 4236198399495373 / 2 ^ 47"
  by (subst to_double_eval [where n = 4]) (simp_all add: round_half_even_def)

lemma float_half_15_15_1: "to_double (4236198399495373 / 2 ^ 47 / 2) = 4236198399495373 / 2 ^ 48"
  by (subst to_double_eval [where n = 3]) (simp_all add: round_half_even_def)

lemma round1_mean_15_15_1: "round1 (4236198399495373 / 2 ^ 48) = 151 / 10"
  by (simp add: round1_def round_half_even_def)

lemma py_round1_mean_15_15_1:
  "py_round1 (float_mean 15 (to_double (151 / 10))) = to_double (151 / 10)"
proof -
  have "float_mean 15 (to_double (151 / 10)) = 4236198399495373 / 2 ^ 48"
    unfolding float_mean_def to_double_15_1 float_sum_15_15_1 float_half_15_15_1 ..
  then show ?thesis
    by (simp only: py_round1_def round1_mean_15_15_1)
qed

lemma exact_mean_15_15_1: "round1 ((15 + 151 / 10) / 2) = 15"
  by (simp add: round1_def round_half_even_def)

text \<open>Likewise the float mean of the doubles 0.3 and 0.4 lies below 0.35 and rounds to
  0.3, where the mean of the decimals would round to 0.4.\<close>

lemma to_double_0_3: "to_double (3 / 10) = 5404319552844595 / 2 ^ 54"
  by (subst to_double_eval_small [where m = 1]) (simp_all add: round_half_even_def)

lemma to_double_0_4: "to_double (4 / 10) = 7205759403792794 / 2 ^ 54"
  by (subst to_double_eval_small [where m = 1]) (simp_all add: round_half_even_def)

lemma float_sum_0_3_0_4:
  "to_double (5404319552844595 / 2 ^ 54 + 7205759403792794 / 2 ^ 54) = 6305039478318694 / 2 ^ 53"
  by (subst to_double_eval_small [where m = 0]) (simp_all add: round_half_even_def)

lemma float_half_0_3_0_4:
  "to_double (6305039478318694 / 2 ^ 53 / 2) = 6305039478318694 / 2 ^ 54"
  by (subst to_double_eval_small [where m = 1]) (simp_all add: round_half_even_def)

lemma round1_mean_0_3_0_4: "round1 (6305039478318694 / 2 ^ 54) = 3 / 10"
  by (simp add: round1_def round_half_even_def)

lemma py_round1_mean_0_3_0_4:
  "py_round1 (float_mean (to_double (3 / 10)) (to_double (4 / 10))) = to_double (3 / 10)"
proof -
  have "float_mean (to_double (3 / 10)) (to_double (4 / 10)) = 6305039478318694 / 2 ^ 54"
    unfolding float_mean_def to_double_0_3 to_double_0_4 float_sum_0_3_0_4 float_half_0_3_0_4 ..
  then show ?thesis
    by (simp only: py_round1_def round1_mean_0_3_0_4)
qed

lemma exact_mean_0_3_0_4: "round1 ((3 / 10 + 4 / 10) / 2) = 4 / 10"
  by (simp add: round1_def round_half_even_def)

subsection \<open>The writer\<close>

lemma add_sample_slot:
  assumes wf: "wf_grid (cells st)" and nz: "py_round1 speed \<noteq> 0"
  shows "\<exists>st'. add_sample st now lat lon h speed = Inr st' \<and> dirty st' \<and>
           slot_at st' (quantize_1e4 lat lon) (heading_to_bucket h) =
             Some (merge_slot (slot_at st (quantize_1e4 lat lon) (heading_to_bucket h))
                     (py_round1 speed) now)"
proof (cases "map_of (cells st) (quantize_1e4 lat lon)")
  case None
  obtain gy gx where q: "quantize_1e4 lat lon = (gy, gx)" by (cases "quantize_1e4 lat lon")
  have len: "length empty_cell = 8" by (simp add: empty_cell_def buckets_def)
  have ix: "py_index empty_cell (heading_to_bucket h) = Inr (nat (heading_to_bucket h))"
    using len by (rule py_index_bucket)
  have lt: "nat (heading_to_bucket h) < length empty_cell"
    using bucket_nat_lt [of h] len by simp
  have e: "empty_cell ! nat (heading_to_bucket h) = (None, None)"
    using lt by (simp add: empty_cell_def)
  have old: "slot_at st (gy, gx) (heading_to_bucket h) = None"
    using None q by (simp add: slot_at_def)
  show ?thesis
    using None nz q ix e lt old
    by (simp add: add_sample_def ensure_cell_def Let_def slot_at_put_slot merge_slot_def)
next
  case (Some arr)
  obtain gy gx where q: "quantize_1e4 lat lon = (gy, gx)" by (cases "quantize_1e4 lat lon")
  have len: "length arr = 8" using wf Some by (rule wf_grid_lookup)
  have ix: "py_index arr (heading_to_bucket h) = Inr (nat (heading_to_bucket h))"
    using len by (rule py_index_bucket)
  have lt: "nat (heading_to_bucket h) < length arr"
    using bucket_nat_lt [of h] len by simp
  obtain v ts where s: "arr ! nat (heading_to_bucket h) = (v, ts)"
    by (cases "arr ! nat (heading_to_bucket h)")
  have old: "slot_at st (gy, gx) (heading_to_bucket h) = Some (v, ts)"
    using Some q ix s by (simp add: slot_at_def)
  show ?thesis
    using Some nz q ix s lt old
    by (cases v) (auto simp: add_sample_def ensure_cell_def Let_def slot_at_put_slot merge_slot_def)
qed

lemma add_sample_wf:
  assumes wf: "wf_grid (cells st)" and r: "add_sample st now lat lon h speed = Inr st'"
  shows "wf_grid (cells st')"
proof (cases "py_round1 speed = 0")
  case True
  then show ?thesis using wf r by (simp add: add_sample_def)
next
  case False
  obtain gy gx where q: "quantize_1e4 lat lon = (gy, gx)" by (cases "quantize_1e4 lat lon")
  show ?thesis
  proof (cases "map_of (cells st) (gy, gx)")
    case None
    have len: "length empty_cell = 8" by (simp add: empty_cell_def buckets_def)
    have w1: "wf_grid (AList.update (gy, gx) empty_cell (cells st))"
      using wf len by (rule wf_grid_update)
    have w2: "\<And>j s. wf_grid (AList.update (gy, gx) (empty_cell[j := s])
                 (AList.update (gy, gx) empty_cell (cells st)))"
      using wf len by (simp add: wf_grid_update)
    show ?thesis
      using r False q None w2
      by (auto simp: add_sample_def ensure_cell_def Let_def put_slot_def
            split: sum.splits prod.splits option.splits if_splits)
  next
    case (Some arr)
    have len: "length arr = 8" using wf Some by (rule wf_grid_lookup)
    have w2: "\<And>j s. wf_grid (AList.update (gy, gx) (arr[j := s]) (cells st))"
      using wf len by (simp add: wf_grid_update)
    show ?thesis
      using r False q Some w2
      by (auto simp: add_sample_def ensure_cell_def Let_def put_slot_def
            split: sum.splits prod.splits option.splits if_splits)
  qed
qed

lemma add_sample_chain:
  assumes wf: "wf_grid (cells st)"
    and empty: "slot_at st (quantize_1e4 lat lon) (heading_to_bucket h) = None \<or>
       (\<exists>ts. slot_at st (quantize_1e4 lat lon) (heading_to_bucket h) = Some (None, ts))"
  shows "\<exists>s1 s2 s3.
       add_sample st t0 lat lon h 5 = Inr s1 \<and>
       slot_at s1 (quantize_1e4 lat lon) (heading_to_bucket h) = Some (Some 5, Some t0) \<and>
       add_sample s1 t1 lat lon h 7 = Inr s2 \<and>
       slot_at s2 (quantize_1e4 lat lon) (heading_to_bucket h) = Some (Some 6, Some t0) \<and>
       add_sample s2 t2 lat lon h (- 3) = Inr s3 \<and>
       slot_at s3 (quantize_1e4 lat lon) (heading_to_bucket h) = Some (Some (- 3), Some t0)"
proof -
  obtain s1 where a1: "add_sample st t0 lat lon h 5 = Inr s1"
    and r1: "slot_at s1 (quantize_1e4 lat lon) (heading_to_bucket h) =
             Some (merge_slot (slot_at st (quantize_1e4 lat lon) (heading_to_bucket h)) 5 t0)"
    using add_sample_slot [OF wf, of 5 t0 lat lon h] by (auto simp: py_round1_samples)
  have v1: "slot_at s1 (quantize_1e4 lat lon) (heading_to_bucket h) = Some (Some 5, Some t0)"
    using r1 empty by (auto simp: merge_slot_def)
  have wf1: "wf_grid (cells s1)" using wf a1 by (rule add_sample_wf)
  obtain s2 where a2: "add_sample s1 t1 lat lon h 7 = Inr s2"
    and r2: "slot_at s2 (quantize_1e4 lat lon) (heading_to_bucket h) =
             Some (merge_slot (slot_at s1 (quantize_1e4 lat lon) (heading_to_bucket h)) 7 t1)"
    using add_sample_slot [OF wf1, of 7 t1 lat lon h] by (auto simp: py_round1_samples)
  have v2: "slot_at s2 (quantize_1e4 lat lon) (heading_to_bucket h) = Some (Some 6, Some t0)"
    using r2 v1 by (simp add: merge_slot_def py_round1_samples float_mean_5_7)
  have wf2: "wf_grid (cells s2)" using wf1 a2 by (rule add_sample_wf)
  obtain s3 where a3: "add_sample s2 t2 lat lon h (- 3) = Inr s3"
    and r3: "slot_at s3 (quantize_1e4 lat lon) (heading_to_bucket h) =
             Some (merge_slot (slot_at s2 (quantize_1e4 lat lon) (heading_to_bucket h)) (- 3) t2)"
    using add_sample_slot [OF wf2, of "- 3" t2 lat lon h] by (auto simp: py_round1_samples)
  have v3: "slot_at s3 (quantize_1e4 lat lon) (heading_to_bucket h) = Some (Some (- 3), Some t0)"
    using r3 v2 by (simp add: merge_slot_def)
  show ?thesis using a1 v1 a2 v2 a3 v3 by blast
qed

lemma add_sample_15_1:
  assumes wf: "wf_grid (cells st)"
    and old: "slot_at st (quantize_1e4 lat lon) (heading_to_bucket h) = Some (Some 15, ts)"
  shows "\<exists>st'. add_sample st now lat lon h (151 / 10) = Inr st' \<and>
           slot_at st' (quantize_1e4 lat lon) (heading_to_bucket h)
             = Some (Some (to_double (151 / 10)), ts)"
proof -
  have nz: "py_round1 (151 / 10) \<noteq> 0"
    using to_double_15_1_facts(1) by (simp add: py_round1_15_1)
  obtain st' where a: "add_sample st now lat lon h (151 / 10) = Inr st'"
    and s: "slot_at st' (quantize_1e4 lat lon) (heading_to_bucket h) =
             Some (merge_slot (slot_at st (quantize_1e4 lat lon) (heading_to_bucket h))
                     (py_round1 (151 / 10)) now)"
    using add_sample_slot [OF wf nz] by blast
  have "merge_slot (Some (Some 15, ts)) (to_double (151 / 10)) now
          = (Some (to_double (151 / 10)), ts)"
    using to_double_15_1_facts(1) by (simp add: merge_slot_def py_round1_mean_15_15_1)
  then show ?thesis using a s old by (simp add: py_round1_15_1)
qed

text \<open>
  C1. Merge policy of \<^verbatim>\<open>add_sample\<close> at the cell and bucket of the sample, for a sample
  whose rounded speed \<open>v = round(speed, 1)\<close> is not zero (a speed of magnitude above
  0.05): into a slot without a value (no cell yet, or the value absent) it writes
  \<open>(v, now)\<close>; a positive \<open>v\<close> over an old value \<open>v_old \<ge> 0\<close> writes
  \<open>round((v_old + v) / 2, 1)\<close>, computed on floats, with the old timestamp; a positive
  \<open>v\<close> over a negative old value writes \<open>(v, ts_old)\<close>; a negative \<open>v\<close> writes
  \<open>(v, ts_old)\<close> whatever the old value is. From an empty slot, the samples \<open>+5.0\<close> at
  \<open>t0\<close>, \<open>+7.0\<close> and \<open>-3.0\<close> leave \<open>(5.0, t0)\<close>, \<open>(6.0, t0)\<close> and \<open>(-3.0, t0)\<close>. The
  mean is the machine's: over the value 15.0 the sample 15.1 leaves the float 15.1, not
  15.0.
\<close>

theorem add_sample_merge_policy:
  assumes wf: "wf_grid (cells st)" and nz: "py_round1 speed \<noteq> 0"
  shows "(\<exists>st'. add_sample st now lat lon h speed = Inr st' \<and>
     ((slot_at st (quantize_1e4 lat lon) (heading_to_bucket h) = None \<or>
       (\<exists>ts. slot_at st (quantize_1e4 lat lon) (heading_to_bucket h) = Some (None, ts))) \<longrightarrow>
      slot_at st' (quantize_1e4 lat lon) (heading_to_bucket h)
        = Some (Some (py_round1 speed), Some now)) \<and>
     (\<forall>v_old ts_old.
        slot_at st (quantize_1e4 lat lon) (heading_to_bucket h) = Some (Some v_old, ts_old) \<longrightarrow>
        (0 < py_round1 speed \<and> 0 \<le> v_old \<longrightarrow>
           slot_at st' (quantize_1e4 lat lon) (heading_to_bucket h)
             = Some (Some (py_round1 (float_mean v_old (py_round1 speed))), ts_old)) \<and>
        (0 < py_round1 speed \<and> v_old < 0 \<longrightarrow>
           slot_at st' (quantize_1e4 lat lon) (heading_to_bucket h)
             = Some (Some (py_round1 speed), ts_old)) \<and>
        (py_round1 speed < 0 \<longrightarrow>
           slot_at st' (quantize_1e4 lat lon) (heading_to_bucket h)
             = Some (Some (py_round1 speed), ts_old)))) \<and>
    ((slot_at st (quantize_1e4 lat lon) (heading_to_bucket h) = None \<or>
       (\<exists>ts. slot_at st (quantize_1e4 lat lon) (heading_to_bucket h) = Some (None, ts))) \<longrightarrow>
     (\<exists>s1 s2 s3.
       add_sample st t0 lat lon h 5 = Inr s1 \<and>
       slot_at s1 (quantize_1e4 lat lon) (heading_to_bucket h) = Some (Some 5, Some t0) \<and>
       add_sample s1 t1 lat lon h 7 = Inr s2 \<and>
       slot_at s2 (quantize_1e4 lat lon) (heading_to_bucket h) = Some (Some 6, Some t0) \<and>
       add_sample s2 t2 lat lon h (- 3) = Inr s3 \<and>
       slot_at s3 (quantize_1e4 lat lon) (heading_to_bucket h) = Some (Some (- 3), Some t0))) \<and>
    (\<forall>ts. slot_at st (quantize_1e4 lat lon) (heading_to_bucket h) = Some (Some 15, ts) \<longrightarrow>
       (\<exists>s'. add_sample st now lat lon h (151 / 10) = Inr s' \<and>
             slot_at s' (quantize_1e4 lat lon) (heading_to_bucket h)
               = Some (Some (to_double (151 / 10)), ts))) \<and>
    to_double (151 / 10) = 8500544296661811 / 2 ^ 49 \<and>
    (py_round1 speed = 0) = (\<bar>speed\<bar> \<le> 1 / 20)"
proof -
  obtain st' where a: "add_sample st now lat lon h speed = Inr st'"
    and s: "slot_at st' (quantize_1e4 lat lon) (heading_to_bucket h) =
             Some (merge_slot (slot_at st (quantize_1e4 lat lon) (heading_to_bucket h))
                     (py_round1 speed) now)"
    using add_sample_slot [OF wf nz] by blast
  have general: "\<exists>st'. add_sample st now lat lon h speed = Inr st' \<and>
     ((slot_at st (quantize_1e4 lat lon) (heading_to_bucket h) = None \<or>
       (\<exists>ts. slot_at st (quantize_1e4 lat lon) (heading_to_bucket h) = Some (None, ts))) \<longrightarrow>
      slot_at st' (quantize_1e4 lat lon) (heading_to_bucket h)
        = Some (Some (py_round1 speed), Some now)) \<and>
     (\<forall>v_old ts_old.
        slot_at st (quantize_1e4 lat lon) (heading_to_bucket h) = Some (Some v_old, ts_old) \<longrightarrow>
        (0 < py_round1 speed \<and> 0 \<le> v_old \<longrightarrow>
           slot_at st' (quantize_1e4 lat lon) (heading_to_bucket h)
             = Some (Some (py_round1 (float_mean v_old (py_round1 speed))), ts_old)) \<and>
        (0 < py_round1 speed \<and> v_old < 0 \<longrightarrow>
           slot_at st' (quantize_1e4 lat lon) (heading_to_bucket h)
             = Some (Some (py_round1 speed), ts_old)) \<and>
        (py_round1 speed < 0 \<longrightarrow>
           slot_at st' (quantize_1e4 lat lon) (heading_to_bucket h)
             = Some (Some (py_round1 speed), ts_old)))"
    using a s nz by (auto simp: merge_slot_def)
  have floats: "\<forall>ts. slot_at st (quantize_1e4 lat lon) (heading_to_bucket h) = Some (Some 15, ts) \<longrightarrow>
       (\<exists>s'. add_sample st now lat lon h (151 / 10) = Inr s' \<and>
             slot_at s' (quantize_1e4 lat lon) (heading_to_bucket h)
               = Some (Some (to_double (151 / 10)), ts))"
    using add_sample_15_1 [OF wf] by blast
  have zero: "(py_round1 speed = 0) = (\<bar>speed\<bar> \<le> 1 / 20)"
    by (simp only: py_round1_zero_iff round1_zero_iff)
  show ?thesis
    using general add_sample_chain [OF wf, of lat lon h t0 t1 t2] floats to_double_15_1 zero
    by blast
qed

theorem add_sample_merge_policy_witness:
  "wf_grid (cells fresh) \<and> py_round1 5 \<noteq> 0 \<and>
   (\<exists>s1 s2 s3.
       add_sample fresh 1000 (75 / 2) 127 90 5 = Inr s1 \<and>
       slot_at s1 (375000, 1270000) 2 = Some (Some 5, Some 1000) \<and>
       add_sample s1 1001 (75 / 2) 127 90 7 = Inr s2 \<and>
       slot_at s2 (375000, 1270000) 2 = Some (Some 6, Some 1000) \<and>
       add_sample s2 1002 (75 / 2) 127 90 (- 3) = Inr s3 \<and>
       slot_at s3 (375000, 1270000) 2 = Some (Some (- 3), Some 1000)) \<and>
   wf_grid (cells seeded) \<and> py_round1 (151 / 10) \<noteq> 0 \<and>
   (\<exists>s'. add_sample seeded 2000 (75 / 2) 127 90 (151 / 10) = Inr s' \<and>
         slot_at s' (375000, 1270000) 2 = Some (Some (8500544296661811 / 2 ^ 49), Some 1000)) \<and>
   8500544296661811 / 2 ^ 49 \<noteq> (15 :: real) \<and>
   round1 ((15 + 151 / 10) / 2) = 15"
proof -
  have wf: "wf_grid (cells fresh)" by (simp add: fresh_def wf_grid_def)
  have nz: "py_round1 5 \<noteq> 0" by (simp add: py_round1_samples)
  have q: "quantize_1e4 (75 / 2) 127 = (375000, 1270000)" by (simp add: quantize_1e4_def)
  have b: "heading_to_bucket 90 = 2" by (simp add: heading_to_bucket_def py_fmod_def)
  have e: "slot_at fresh (375000, 1270000) 2 = None" by (simp add: slot_at_def fresh_def)
  have c1: "\<exists>s1 s2 s3.
       add_sample fresh 1000 (75 / 2) 127 90 5 = Inr s1 \<and>
       slot_at s1 (375000, 1270000) 2 = Some (Some 5, Some 1000) \<and>
       add_sample s1 1001 (75 / 2) 127 90 7 = Inr s2 \<and>
       slot_at s2 (375000, 1270000) 2 = Some (Some 6, Some 1000) \<and>
       add_sample s2 1002 (75 / 2) 127 90 (- 3) = Inr s3 \<and>
       slot_at s3 (375000, 1270000) 2 = Some (Some (- 3), Some 1000)"
    using add_sample_merge_policy [OF wf nz, of 1000 "75 / 2" 127 90 1000 1001 1002] e
    unfolding q b by blast
  have wf2: "wf_grid (cells seeded)"
    by (simp add: seeded_def fresh_def wf_grid_def empty_cell_def buckets_def)
  have nz2: "py_round1 (151 / 10) \<noteq> 0"
    using to_double_15_1_facts(1) by (simp add: py_round1_15_1)
  have s: "slot_at seeded (375000, 1270000) 2 = Some (Some 15, Some 1000)"
    by (simp add: slot_at_def seeded_def fresh_def py_index_def empty_cell_def buckets_def
          numeral_eq_Suc)
  have "\<exists>s'. add_sample seeded 2000 (75 / 2) 127 90 (151 / 10) = Inr s' \<and>
         slot_at s' (375000, 1270000) 2 = Some (Some (to_double (151 / 10)), Some 1000)"
    using add_sample_merge_policy [OF wf2 nz2, of 2000 "75 / 2" 127 90 0 0 0] s
    unfolding q b by blast
  then have c2: "\<exists>s'. add_sample seeded 2000 (75 / 2) 127 90 (151 / 10) = Inr s' \<and>
         slot_at s' (375000, 1270000) 2 = Some (Some (8500544296661811 / 2 ^ 49), Some 1000)"
    unfolding to_double_15_1 .
  have ne: "8500544296661811 / 2 ^ 49 \<noteq> (15 :: real)" by simp
  have ex: "round1 ((15 + 151 / 10) / 2) = 15"
    by (simp add: round1_def round_half_even_def)
  show ?thesis using wf nz c1 wf2 nz2 c2 ne ex by blast
qed

text \<open>
  C9. A sample whose speed rounds to \<open>0.0\<close> is a no-op: \<^verbatim>\<open>add_sample\<close> returns the
  state it was given, so no slot, no cell and not the dirty flag changes. The speeds that
  round to \<open>0.0\<close> are those of magnitude at most 0.05.
\<close>

theorem add_sample_zero_noop:
  "(round1 speed = 0 \<longrightarrow> add_sample st now lat lon h speed = Inr st) \<and>
   (\<bar>speed\<bar> \<le> 1 / 20 \<longrightarrow> add_sample st now lat lon h speed = Inr st) \<and>
   (round1 speed = 0) = (\<bar>speed\<bar> \<le> 1 / 20)"
proof -
  have a: "round1 speed = 0 \<longrightarrow> add_sample st now lat lon h speed = Inr st"
    by (simp add: add_sample_def py_round1_def to_double_0)
  have c: "(round1 speed = 0) = (\<bar>speed\<bar> \<le> 1 / 20)"
    by (rule round1_zero_iff)
  show ?thesis using a c by blast
qed

theorem add_sample_zero_noop_witness:
  "round1 (1 / 25) = 0 \<and> add_sample seeded 2000 (75 / 2) 127 90 (1 / 25) = Inr seeded \<and>
   add_sample fresh 2000 (75 / 2) 127 90 0 = Inr fresh"
  using add_sample_zero_noop [where speed = "1 / 25" and st = seeded and now = 2000
      and lat = "75 / 2" and lon = 127 and h = 90]
    add_sample_zero_noop [where speed = 0 and st = fresh and now = 2000
      and lat = "75 / 2" and lon = 127 and h = 90]
  by simp

subsection \<open>The reader: what a hit is\<close>

lemma slot_at_SomeD:
  assumes "slot_at st k b = Some s"
  shows "\<exists>arr j. map_of (cells st) k = Some arr \<and> py_index arr b = Inr j \<and> arr ! j = s"
  using assms by (auto simp: slot_at_def split: option.splits sum.splits)

lemma try_offsets_hit:
  "try_offsets st now arr b offs = Inr (Some (v, bi)) \<Longrightarrow>
   \<exists>j ts. py_index arr bi = Inr j \<and> arr ! j = (Some v, Some ts) \<and>
          neighbor_old_threshold_s st \<le> now - ts"
proof (induction offs)
  case Nil
  then show ?case by simp
next
  case (Cons off offs)
  then show ?case
    by (auto simp: Let_def split: sum.splits prod.splits option.splits if_splits)
qed

lemma try_cell_hit:
  assumes "try_cell st now b k = Inr (Some (v, bi))"
  shows "\<exists>ts. slot_at st k bi = Some (Some v, Some ts) \<and>
          neighbor_old_threshold_s st \<le> now - ts"
proof -
  obtain arr where a: "map_of (cells st) k = Some arr"
    and t: "try_offsets st now arr b [0, - 1, 1] = Inr (Some (v, bi))"
    using assms
    by (auto simp: try_cell_def try_cell_buckets_old_def split: option.splits if_splits)
  from try_offsets_hit [OF t] a show ?thesis
    by (auto simp: slot_at_def)
qed

lemma search_neighbors_hit:
  "search_neighbors st now b ns = Inr (Some (v, gy, gx, bi)) \<Longrightarrow>
   \<exists>ts. slot_at st (gy, gx) bi = Some (Some v, Some ts) \<and>
          neighbor_old_threshold_s st \<le> now - ts"
proof (induction ns)
  case Nil
  then show ?case by simp
next
  case (Cons n ns)
  obtain ny nx where n: "n = (ny, nx)" by (cases n)
  show ?case
  proof (cases "try_cell st now b (ny, nx)")
    case (Inl e)
    then show ?thesis using Cons.prems n by simp
  next
    case (Inr r)
    show ?thesis
    proof (cases r)
      case None
      then show ?thesis using Cons Inr n by simp
    next
      case (Some p)
      obtain v2 b2 where p: "p = (v2, b2)" by (cases p)
      have "try_cell st now b (gy, gx) = Inr (Some (v, bi))"
        using Cons.prems Inr Some p n by simp
      then show ?thesis by (rule try_cell_hit)
    qed
  qed
qed

lemma search_dists_hit:
  "search_dists st now lat lon h nf b ds = Inr (Some (v, gy, gx, bi)) \<Longrightarrow>
   \<exists>ts. slot_at st (gy, gx) bi = Some (Some v, Some ts) \<and>
          neighbor_old_threshold_s st \<le> now - ts"
proof (induction ds)
  case Nil
  then show ?case by simp
next
  case (Cons d ds)
  obtain y x where pp: "project_point lat lon h d = (y, x)" by (cases "project_point lat lon h d")
  obtain cy cx where q: "quantize_1e4 y x = (cy, cx)" by (cases "quantize_1e4 y x")
  show ?case
  proof (cases "try_cell st now b (cy, cx)")
    case (Inl e)
    then show ?thesis using Cons.prems pp q by simp
  next
    case (Inr r)
    show ?thesis
    proof (cases r)
      case (Some p)
      obtain v2 b2 where p: "p = (v2, b2)" by (cases p)
      have "try_cell st now b (gy, gx) = Inr (Some (v, bi))"
        using Cons.prems Inr Some p pp q by simp
      then show ?thesis by (rule try_cell_hit)
    next
      case None
      show ?thesis
      proof (cases nf)
        case False
        then show ?thesis using Cons Inr None pp q by simp
      next
        case True
        show ?thesis
        proof (cases "search_neighbors st now b (neighbors_8 cy cx)")
          case (Inl e)
          then show ?thesis using Cons.prems Inr None pp q True by simp
        next
          case nb: (Inr r2)
          show ?thesis
          proof (cases r2)
            case None2: None
            then show ?thesis using Cons Inr None pp q True nb by simp
          next
            case (Some hh)
            then have "search_neighbors st now b (neighbors_8 cy cx) = Inr (Some (v, gy, gx, bi))"
              using Cons.prems Inr None pp q True nb by simp
            then show ?thesis by (rule search_neighbors_hit)
          qed
        qed
      qed
    qed
  qed
qed

lemma find_hit_slot:
  "find_hit st now lat lon h d nf = Inr (Some (v, gy, gx, bi)) \<Longrightarrow>
   \<exists>ts. slot_at st (gy, gx) bi = Some (Some v, Some ts) \<and>
          neighbor_old_threshold_s st \<le> now - ts"
  unfolding find_hit_def by (rule search_dists_hit)

lemma try_cell_home:
  assumes s: "slot_at st k (heading_to_bucket h) = Some (Some v, Some t)"
    and old: "neighbor_old_threshold_s st \<le> now - t"
  shows "try_cell st now (heading_to_bucket h) k = Inr (Some (v, heading_to_bucket h))"
proof -
  obtain arr j where a: "map_of (cells st) k = Some arr"
    and ix: "py_index arr (heading_to_bucket h) = Inr j" and v: "arr ! j = (Some v, Some t)"
    using slot_at_SomeD [OF s] by blast
  have ne: "arr \<noteq> []" using ix by (auto simp: py_index_def Let_def split: if_splits)
  have m: "heading_to_bucket h mod buckets = heading_to_bucket h"
    using heading_to_bucket_range [of h] by (simp add: buckets_def)
  show ?thesis
    using a ix v ne old m
    by (simp add: try_cell_def try_cell_buckets_old_def Let_def)
qed

lemma search_dists_Cons_home:
  assumes q: "(case project_point lat lon h d of (y, x) \<Rightarrow> quantize_1e4 y x) = (gy, gx)"
    and t: "try_cell st now b (gy, gx) = Inr (Some (v, bi))"
  shows "search_dists st now lat lon h nf b (d # ds) = Inr (Some (v, gy, gx, bi))"
proof -
  obtain y x where pp: "project_point lat lon h d = (y, x)" by (cases "project_point lat lon h d")
  have q': "quantize_1e4 y x = (gy, gx)" using q pp by simp
  show ?thesis using pp q' t by simp
qed

lemma find_hit_home:
  assumes s: "slot_at st (gy, gx) (heading_to_bucket h) = Some (Some v, Some t)"
    and q: "(case project_point lat lon h d of (y, x) \<Rightarrow> quantize_1e4 y x) = (gy, gx)"
    and old: "neighbor_old_threshold_s st \<le> now - t"
  shows "find_hit st now lat lon h d nf = Inr (Some (v, gy, gx, heading_to_bucket h))"
  unfolding find_hit_def cand_ds_def
  using q try_cell_home [OF s old] by (rule search_dists_Cons_home)

lemma query_target_dist_cases:
  assumes "query_target_dist st now now_ms lat lon h d nf = Inr (r, st')"
  shows "(find_hit st now lat lon h d nf = Inr None \<and> r = 0 \<and> st' = st) \<or>
         (\<exists>gy gx bi. find_hit st now lat lon h d nf = Inr (Some (r, gy, gx, bi)) \<and>
            st' = st\<lparr>last_hit := Some (gy, gx, bi, now), last_hit_read_ms := now_ms\<rparr>)"
  using assms
  by (auto simp: query_target_dist_def split: sum.splits option.splits prod.splits)

subsection \<open>The example states\<close>

lemma demo_runtime_fields:
  "gzip_compress (demo_runtime d) level raw = Inr (0x1F # 0x8B # raw)"
  "gzip_decompress (demo_runtime d) z = Inr (drop 2 z)"
  "json_dumps (demo_runtime d) j = [0x7B]"
  "json_loads (demo_runtime d) bs = Inr d"
  "int_of_str (demo_runtime d) = int_of_decimal"
  "float_of_str (demo_runtime d) s = Inl ValueError"
  by (simp_all add: demo_runtime_def)

lemma demo_parse_key: "parse_key (demo_runtime d) ''375000,1270000'' = Inr (375000, 1270000)"
  by (simp add: parse_key_def demo_runtime_fields int_of_decimal_def digit_of_char_def)

lemma empty_cell_eq: "empty_cell = [(None, None), (None, None), (None, None), (None, None),
    (None, None), (None, None), (None, None), (None, None)]"
  by (simp add: empty_cell_def buckets_def numeral_eq_Suc)

lemma half_load_try:
  "load_try (demo_runtime half_doc) [0x7B]
     = Inr (Some [((375000, 1270000), empty_cell[2 := (Some 5, None)])])"
  by (simp add: load_try_def decode_payload_def is_gzip_def demo_runtime_fields half_doc_def
        doc_of_def half_cell_def demo_parse_key
        fix_cell_def fix_pair_def py_float_def py_int_def empty_cell_eq)

lemma half_loaded:
  "load_from_params_if_exists (demo_runtime half_doc) stored
     = stored\<lparr>cells := [((375000, 1270000), empty_cell[2 := (Some 5, None)])]\<rparr>"
  by (simp add: load_from_params_if_exists_def params_get_def stored_def fresh_def KEY_def
        half_load_try)

lemma seeded_slot: "slot_at seeded (375000, 1270000) 2 = Some (Some 15, Some 1000)"
  by (simp add: slot_at_def seeded_def fresh_def py_index_def empty_cell_eq)

lemma bucket_90: "heading_to_bucket 90 = 2"
  by (simp add: heading_to_bucket_def py_fmod_def)

lemma home_point: "(case project_point (75 / 2) 127 90 0 of (y, x) \<Rightarrow> quantize_1e4 y x)
    = (375000, 1270000)"
  by (simp add: project_point_def quantize_1e4_def)

subsection \<open>The recency gate\<close>

text \<open>
  C2. The old-only gate of a query. Let the slot of cell \<open>(gy, gx)\<close> at the bucket of the
  heading hold a value \<open>v\<close> written at second \<open>t\<close>, and let the first candidate point of
  the query fall into that cell. Then the query returns this slot exactly when
  \<open>now - t \<ge> neighbor_old_threshold_s\<close>; with the default threshold of 120 it is not
  returned at \<open>t + 119\<close> and is returned (and recorded as the last hit) at \<open>t + 121\<close>.
  The gate is the same for every slot a query can return, in the home cell or in a
  neighbour: whatever is returned is at least the threshold old.
\<close>

theorem query_recency_gate:
  assumes s: "slot_at st (gy, gx) (heading_to_bucket h) = Some (Some v, Some t)"
    and q: "(case project_point lat lon h d of (y, x) \<Rightarrow> quantize_1e4 y x) = (gy, gx)"
  shows "((find_hit st now lat lon h d nf = Inr (Some (v, gy, gx, heading_to_bucket h)))
            = (neighbor_old_threshold_s st \<le> now - t)) \<and>
         (neighbor_old_threshold_s st \<le> now - t \<longrightarrow>
            query_target_dist st now now_ms lat lon h d nf
              = Inr (v, st\<lparr>last_hit := Some (gy, gx, heading_to_bucket h, now),
                            last_hit_read_ms := now_ms\<rparr>)) \<and>
         (neighbor_old_threshold_s st = 120 \<longrightarrow>
            (\<forall>v'. find_hit st (t + 119) lat lon h d nf
                     \<noteq> Inr (Some (v', gy, gx, heading_to_bucket h))) \<and>
            find_hit st (t + 121) lat lon h d nf = Inr (Some (v, gy, gx, heading_to_bucket h)) \<and>
            query_target_dist st (t + 121) now_ms lat lon h d nf
              = Inr (v, st\<lparr>last_hit := Some (gy, gx, heading_to_bucket h, t + 121),
                            last_hit_read_ms := now_ms\<rparr>)) \<and>
         (\<forall>v' cy cx bj. find_hit st now lat lon h d nf = Inr (Some (v', cy, cx, bj)) \<longrightarrow>
            (\<exists>ts. slot_at st (cy, cx) bj = Some (Some v', Some ts) \<and>
                  neighbor_old_threshold_s st \<le> now - ts))"
proof -
  have every: "\<forall>v' cy cx bj. find_hit st now lat lon h d nf = Inr (Some (v', cy, cx, bj)) \<longrightarrow>
            (\<exists>ts. slot_at st (cy, cx) bj = Some (Some v', Some ts) \<and>
                  neighbor_old_threshold_s st \<le> now - ts)"
    by (blast dest: find_hit_slot)
  have gate: "\<And>n v'. find_hit st n lat lon h d nf = Inr (Some (v', gy, gx, heading_to_bucket h))
      \<Longrightarrow> neighbor_old_threshold_s st \<le> n - t"
    using s by (auto dest!: find_hit_slot)
  have hit: "\<And>n. neighbor_old_threshold_s st \<le> n - t
      \<Longrightarrow> find_hit st n lat lon h d nf = Inr (Some (v, gy, gx, heading_to_bucket h))"
    using find_hit_home [OF s q] by blast
  have qt: "\<And>n. neighbor_old_threshold_s st \<le> n - t
      \<Longrightarrow> query_target_dist st n now_ms lat lon h d nf
            = Inr (v, st\<lparr>last_hit := Some (gy, gx, heading_to_bucket h, n),
                          last_hit_read_ms := now_ms\<rparr>)"
    using hit by (simp add: query_target_dist_def)
  have a: "(find_hit st now lat lon h d nf = Inr (Some (v, gy, gx, heading_to_bucket h)))
            = (neighbor_old_threshold_s st \<le> now - t)"
    using gate [of now v] hit [of now] by blast
  have c: "neighbor_old_threshold_s st = 120 \<longrightarrow>
            (\<forall>v'. find_hit st (t + 119) lat lon h d nf
                     \<noteq> Inr (Some (v', gy, gx, heading_to_bucket h)))"
    using gate [of "t + 119"] by fastforce
  have d: "neighbor_old_threshold_s st = 120 \<longrightarrow>
            find_hit st (t + 121) lat lon h d nf = Inr (Some (v, gy, gx, heading_to_bucket h))"
    using hit [of "t + 121"] by simp
  have e: "neighbor_old_threshold_s st = 120 \<longrightarrow>
            query_target_dist st (t + 121) now_ms lat lon h d nf
              = Inr (v, st\<lparr>last_hit := Some (gy, gx, heading_to_bucket h, t + 121),
                            last_hit_read_ms := now_ms\<rparr>)"
    using qt [of "t + 121"] by simp
  show ?thesis using a qt [of now] c d e every by blast
qed

theorem query_recency_gate_witness:
  "slot_at seeded (375000, 1270000) (heading_to_bucket 90) = Some (Some 15, Some 1000) \<and>
   (case project_point (75 / 2) 127 90 0 of (y, x) \<Rightarrow> quantize_1e4 y x) = (375000, 1270000) \<and>
   neighbor_old_threshold_s seeded = 120 \<and>
   find_hit seeded 1119 (75 / 2) 127 90 0 True \<noteq> Inr (Some (15, 375000, 1270000, 2)) \<and>
   query_target_dist seeded 1121 1121000 (75 / 2) 127 90 0 True
     = Inr (15, seeded\<lparr>last_hit := Some (375000, 1270000, 2, 1121),
                        last_hit_read_ms := 1121000\<rparr>)"
proof -
  have s: "slot_at seeded (375000, 1270000) (heading_to_bucket 90) = Some (Some 15, Some 1000)"
    by (simp add: bucket_90 seeded_slot)
  have t: "neighbor_old_threshold_s seeded = 120" by (simp add: seeded_def fresh_def)
  show ?thesis
    using query_recency_gate [OF s home_point, of 1121 True 1121000] s t
    by (simp add: bucket_90 home_point)
qed

text \<open>
  C10. A slot whose value is present and whose timestamp is absent is never returned:
  no query hits it, the bucket search only returns slots with both fields present, and
  every value a query returns is either the 0.0 of "no data" or read from a slot with a
  value and a timestamp. Such a slot comes out of the load of a pair \<^verbatim>\<open>[5.0, null]\<close>.
\<close>

theorem half_present_slot_never_returned:
  "(slot_at st (gy, gx) bi = Some (Some v, None) \<longrightarrow>
      find_hit st now lat lon h d nf \<noteq> Inr (Some (v', gy, gx, bi))) \<and>
   (\<forall>arr b r bj. try_cell_buckets_old st now arr b = Inr (Some (r, bj)) \<longrightarrow>
      (\<exists>j ts. py_index arr bj = Inr j \<and> arr ! j = (Some r, Some ts))) \<and>
   (\<forall>r st'. query_target_dist st now now_ms lat lon h d nf = Inr (r, st') \<longrightarrow>
      (find_hit st now lat lon h d nf = Inr None \<and> r = 0 \<and> st' = st) \<or>
      (\<exists>cy cx bj ts. find_hit st now lat lon h d nf = Inr (Some (r, cy, cx, bj)) \<and>
         slot_at st (cy, cx) bj = Some (Some r, Some ts) \<and>
         st' = st\<lparr>last_hit := Some (cy, cx, bj, now), last_hit_read_ms := now_ms\<rparr>)) \<and>
   fix_pair rt (JList [JFloat 5, JNull]) = Inr (Some 5, None)"
proof -
  have a: "slot_at st (gy, gx) bi = Some (Some v, None) \<longrightarrow>
      find_hit st now lat lon h d nf \<noteq> Inr (Some (v', gy, gx, bi))"
    by (auto dest!: find_hit_slot)
  have b: "\<forall>arr b r bj. try_cell_buckets_old st now arr b = Inr (Some (r, bj)) \<longrightarrow>
      (\<exists>j ts. py_index arr bj = Inr j \<and> arr ! j = (Some r, Some ts))"
    unfolding try_cell_buckets_old_def by (blast dest: try_offsets_hit)
  have c: "\<forall>r st'. query_target_dist st now now_ms lat lon h d nf = Inr (r, st') \<longrightarrow>
      (find_hit st now lat lon h d nf = Inr None \<and> r = 0 \<and> st' = st) \<or>
      (\<exists>cy cx bj ts. find_hit st now lat lon h d nf = Inr (Some (r, cy, cx, bj)) \<and>
         slot_at st (cy, cx) bj = Some (Some r, Some ts) \<and>
         st' = st\<lparr>last_hit := Some (cy, cx, bj, now), last_hit_read_ms := now_ms\<rparr>)"
  proof (intro allI impI)
    fix r st'
    assume q: "query_target_dist st now now_ms lat lon h d nf = Inr (r, st')"
    from query_target_dist_cases [OF q] show
      "(find_hit st now lat lon h d nf = Inr None \<and> r = 0 \<and> st' = st) \<or>
       (\<exists>cy cx bj ts. find_hit st now lat lon h d nf = Inr (Some (r, cy, cx, bj)) \<and>
         slot_at st (cy, cx) bj = Some (Some r, Some ts) \<and>
         st' = st\<lparr>last_hit := Some (cy, cx, bj, now), last_hit_read_ms := now_ms\<rparr>)"
    proof
      assume "find_hit st now lat lon h d nf = Inr None \<and> r = 0 \<and> st' = st"
      then show ?thesis by blast
    next
      assume "\<exists>gy gx bi. find_hit st now lat lon h d nf = Inr (Some (r, gy, gx, bi)) \<and>
            st' = st\<lparr>last_hit := Some (gy, gx, bi, now), last_hit_read_ms := now_ms\<rparr>"
      then obtain cy cx bj where f: "find_hit st now lat lon h d nf = Inr (Some (r, cy, cx, bj))"
        and s: "st' = st\<lparr>last_hit := Some (cy, cx, bj, now), last_hit_read_ms := now_ms\<rparr>"
        by blast
      from find_hit_slot [OF f] obtain ts where "slot_at st (cy, cx) bj = Some (Some r, Some ts)"
        by blast
      with f s show ?thesis by blast
    qed
  qed
  have d: "fix_pair rt (JList [JFloat 5, JNull]) = Inr (Some 5, None)"
    by (simp add: fix_pair_def py_float_def)
  show ?thesis using a b c d by blast
qed

theorem half_present_slot_never_returned_witness:
  "slot_at (load_from_params_if_exists (demo_runtime half_doc) stored) (375000, 1270000) 2
     = Some (Some 5, None) \<and>
   find_hit (load_from_params_if_exists (demo_runtime half_doc) stored) 5000 (75 / 2) 127 90 0 True
     \<noteq> Inr (Some (5, 375000, 1270000, 2))"
proof -
  have s: "slot_at (load_from_params_if_exists (demo_runtime half_doc) stored) (375000, 1270000) 2
     = Some (Some 5, None)"
    by (simp add: half_loaded slot_at_def py_index_def empty_cell_eq)
  show ?thesis
    using half_present_slot_never_returned
      [of "load_from_params_if_exists (demo_runtime half_doc) stored" 375000 1270000 2 5
          5000 "75 / 2" 127 90 0 True 5] s
    by blast
qed

subsection \<open>The search order\<close>

lemma first_match_append:
  "first_match st now (ps @ qs) =
     (case first_match st now ps of Some h \<Rightarrow> Some h | None \<Rightarrow> first_match st now qs)"
  by (induction ps) (auto split: option.splits prod.splits)

lemma first_match_no_cell:
  "map_of (cells st) k = None \<Longrightarrow> first_match st now (map (Pair k) bs) = None"
  by (induction bs) (auto simp: slot_at_def)

lemma try_offsets_first_match:
  assumes a: "map_of (cells st) k = Some arr" and len: "length arr = 8"
  shows "try_offsets st now arr b offs
           = Inr (map_option (\<lambda>(v, gy, gx, bi). (v, bi))
                   (first_match st now (map (\<lambda>off. (k, (b + off) mod 8)) offs)))"
proof (induction offs)
  case Nil
  then show ?case by simp
next
  case (Cons off offs)
  have r: "0 \<le> (b + off) mod 8 \<and> (b + off) mod 8 < 8" by simp
  have ix: "py_index arr ((b + off) mod 8) = Inr (nat ((b + off) mod 8))"
    using r len by (simp add: py_index_in_range)
  have s: "slot_at st k ((b + off) mod 8) = Some (arr ! nat ((b + off) mod 8))"
    using a ix by (simp add: slot_at_def)
  show ?case
    using Cons ix s
    by (auto simp: Let_def buckets_def split: prod.splits option.splits)
qed

lemma first_match_cell:
  "first_match st now (map (Pair k) bs) = Some (v, gy, gx, bi) \<Longrightarrow> k = (gy, gx)"
  by (induction bs) (auto split: option.splits prod.splits if_splits)

lemma try_cell_first_match:
  assumes wf: "wf_grid (cells st)"
  shows "try_cell st now b k
           = Inr (map_option (\<lambda>(v, gy, gx, bi). (v, bi))
                   (first_match st now (map (Pair k) (bucket_order b))))"
proof (cases "map_of (cells st) k")
  case None
  then show ?thesis by (simp add: try_cell_def first_match_no_cell)
next
  case (Some arr)
  have len: "length arr = 8" using wf Some by (rule wf_grid_lookup)
  have ne: "arr \<noteq> []" using len by auto
  have m: "map (\<lambda>off. (k, (b + off) mod 8)) [0, - 1, 1] = map (Pair k) (bucket_order b)"
    by (simp add: bucket_order_def)
  show ?thesis
    using try_offsets_first_match [OF Some len, of now b "[0, - 1, 1]"] Some ne
    unfolding m by (simp add: try_cell_def try_cell_buckets_old_def)
qed

lemma try_cell_None:
  assumes wf: "wf_grid (cells st)"
    and n: "first_match st now (map (Pair k) (bucket_order b)) = None"
  shows "try_cell st now b k = Inr None"
  using try_cell_first_match [OF wf, of now b k] n by simp

lemma try_cell_Some:
  assumes wf: "wf_grid (cells st)"
    and n: "first_match st now (map (Pair k) (bucket_order b)) = Some (v, gy, gx, bi)"
  shows "try_cell st now b k = Inr (Some (v, bi)) \<and> k = (gy, gx)"
  using try_cell_first_match [OF wf, of now b k] n first_match_cell [OF n] by simp

lemma search_neighbors_first_match:
  assumes wf: "wf_grid (cells st)"
  shows "search_neighbors st now b ns
           = Inr (first_match st now (concat (map (\<lambda>c. map (Pair c) (bucket_order b)) ns)))"
proof (induction ns)
  case Nil
  then show ?case by simp
next
  case (Cons n ns)
  obtain ny nx where n: "n = (ny, nx)" by (cases n)
  show ?case
  proof (cases "first_match st now (map (Pair n) (bucket_order b))")
    case None
    then show ?thesis
      using Cons try_cell_None [OF wf None] n by (simp add: first_match_append)
  next
    case (Some hh)
    obtain v gy gx bi where hh: "hh = (v, gy, gx, bi)" by (cases hh)
    have fm: "first_match st now (map (Pair n) (bucket_order b)) = Some (v, gy, gx, bi)"
      using Some hh by simp
    have n': "n = (gy, gx)" using try_cell_Some [OF wf fm] by simp
    have t: "try_cell st now b (gy, gx) = Inr (Some (v, bi))"
      using try_cell_Some [OF wf fm] n' by simp
    show ?thesis unfolding n' using t fm [unfolded n'] by (simp add: first_match_append)
  qed
qed

lemma neighbors_8_eq:
  "neighbors_8 gy gx = map (\<lambda>(dy, dx). (gy + dy, gx + dx))
     [(- 1, - 1), (- 1, 0), (- 1, 1), (0, - 1), (0, 1), (1, - 1), (1, 0), (1, 1)]"
  by (simp add: neighbors_8_def)

lemma point_probes_Cons:
  "point_probes nf b (gy, gx) =
     map (Pair (gy, gx)) (bucket_order b) @
     (if nf then concat (map (\<lambda>c. map (Pair c) (bucket_order b)) (neighbors_8 gy gx)) else [])"
  unfolding neighbors_8_eq by (simp add: point_probes_def cell_order_def)

lemma search_dists_first_match:
  assumes wf: "wf_grid (cells st)"
  shows "search_dists st now lat lon h nf b ds
           = Inr (first_match st now
                   (concat (map (\<lambda>dm. point_probes nf b
                                  (case project_point lat lon h dm of
                                     (y, x) \<Rightarrow> quantize_1e4 y x)) ds)))"
proof (induction ds)
  case Nil
  then show ?case by simp
next
  case (Cons d ds)
  obtain y x where pp: "project_point lat lon h d = (y, x)" by (cases "project_point lat lon h d")
  obtain gy gx where q: "quantize_1e4 y x = (gy, gx)" by (cases "quantize_1e4 y x")
  let ?rest = "first_match st now
                   (concat (map (\<lambda>dm. point_probes nf b
                                  (case project_point lat lon h dm of
                                     (y, x) \<Rightarrow> quantize_1e4 y x)) ds))"
  show ?case
  proof (cases "first_match st now (map (Pair (gy, gx)) (bucket_order b))")
    case (Some hh)
    obtain v cy cx bi where hh: "hh = (v, cy, cx, bi)" by (cases hh)
    have fm: "first_match st now (map (Pair (gy, gx)) (bucket_order b)) = Some (v, cy, cx, bi)"
      using Some hh by simp
    have e: "gy = cy \<and> gx = cx" using try_cell_Some [OF wf fm] by simp
    have t: "try_cell st now b (cy, cx) = Inr (Some (v, bi))"
      using try_cell_Some [OF wf fm] e by simp
    have fm': "first_match st now (map (Pair (cy, cx)) (bucket_order b)) = Some (v, cy, cx, bi)"
      using fm e by simp
    have q': "quantize_1e4 y x = (cy, cx)" using q e by simp
    show ?thesis
      using t fm' pp q' by (simp add: point_probes_Cons first_match_append)
  next
    case None
    have t: "try_cell st now b (gy, gx) = Inr None" using wf None by (rule try_cell_None)
    show ?thesis
    proof (cases nf)
      case False
      then show ?thesis
        using Cons None t pp q by (simp add: point_probes_Cons first_match_append)
    next
      case True
      show ?thesis
        using Cons None t pp q True search_neighbors_first_match [OF wf, of now b "neighbors_8 gy gx"]
        by (simp add: point_probes_Cons first_match_append split: option.splits)
    qed
  qed
qed

lemma cand_ds_nonneg: "- 3 \<le> d \<Longrightarrow> cand_ds d = spec_cand_ds d"
  by (simp add: cand_ds_def spec_cand_ds_def)

lemma cand_ds_eq:
  "cand_ds d = d # filter (\<lambda>x. 0 \<le> x) [d + 3, d - 3, d + 6, d - 6]"
  by (simp add: cand_ds_def)

lemma first_match_dup:
  "first_match st now (ps @ ps @ qs) = first_match st now (ps @ qs)"
  by (simp add: first_match_append split: option.splits)

lemma project_point_nonpos: "dm \<le> 0 \<Longrightarrow> project_point lat lon h dm = (lat, lon)"
  by (simp add: project_point_def)

lemma cand_ds_same_probes:
  fixes P :: "real \<Rightarrow> (cell_key \<times> int) list"
  assumes P: "\<And>dm. dm \<le> 0 \<Longrightarrow> P dm = P0"
  shows "first_match st now (concat (map P (cand_ds d)))
           = first_match st now (concat (map P (spec_cand_ds d)))"
proof (cases "- 3 \<le> d")
  case True
  then show ?thesis by (simp add: cand_ds_nonneg)
next
  case False
  then have d: "d \<le> 0" "d + 3 \<le> 0" by simp_all
  show ?thesis
  proof (cases "0 \<le> d + 6")
    case True
    have c: "cand_ds d = [d, d + 6]" using False True by (simp add: cand_ds_def)
    have s: "spec_cand_ds d = [d, d + 3, d + 6]" using False by (simp add: spec_cand_ds_def)
    show ?thesis
      unfolding c s using first_match_dup [of st now P0 "P (d + 6)"]
      by (simp add: P [OF d(1)] P [OF d(2)])
  next
    case f6: False
    then have d6: "d + 6 \<le> 0" by simp
    have c: "cand_ds d = [d]" using False f6 by (simp add: cand_ds_def)
    have s: "spec_cand_ds d = [d, d + 3, d + 6]" using False by (simp add: spec_cand_ds_def)
    show ?thesis
      unfolding c s using first_match_dup [of st now P0 P0] first_match_dup [of st now P0 "[]"]
      by (simp add: P [OF d(1)] P [OF d(2)] P [OF d6])
  qed
qed

lemma find_hit_first_match:
  assumes wf: "wf_grid (cells st)"
  shows "find_hit st now lat lon h d nf = Inr (first_match st now (probes lat lon h d nf))"
proof -
  let ?P = "\<lambda>dm. point_probes nf (heading_to_bucket h)
                   (case project_point lat lon h dm of (y, x) \<Rightarrow> quantize_1e4 y x)"
  have P: "\<And>dm. dm \<le> 0 \<Longrightarrow> ?P dm = point_probes nf (heading_to_bucket h) (quantize_1e4 lat lon)"
    by (simp add: project_point_nonpos)
  have "find_hit st now lat lon h d nf
          = Inr (first_match st now (concat (map ?P (cand_ds d))))"
    unfolding find_hit_def using wf by (rule search_dists_first_match)
  also have "first_match st now (concat (map ?P (cand_ds d)))
          = first_match st now (concat (map ?P (spec_cand_ds d)))"
    using P by (rule cand_ds_same_probes)
  finally show ?thesis by (simp add: probes_def)
qed

lemma py_index_lt: "py_index xs i = Inr j \<Longrightarrow> j < length xs"
  by (auto simp: py_index_def Let_def split: if_splits)

lemma slot_at_mem:
  assumes "slot_at st k bi = Some s"
  shows "\<exists>arr. (k, arr) \<in> set (cells st) \<and> s \<in> set arr"
proof -
  obtain arr j where a: "map_of (cells st) k = Some arr" and ix: "py_index arr bi = Inr j"
    and v: "arr ! j = s"
    using slot_at_SomeD [OF assms] by blast
  have "j < length arr" using ix by (rule py_index_lt)
  then have "s \<in> set arr" using v by auto
  then show ?thesis using a by (auto dest: map_of_SomeD)
qed

lemma first_match_no_values:
  assumes e: "list_all (\<lambda>(k, arr). list_all (\<lambda>s. fst s = None) arr) (cells st)"
  shows "first_match st now ps = None"
proof (induction ps)
  case Nil
  then show ?case by simp
next
  case (Cons p ps)
  obtain k bi where p: "p = (k, bi)" by (cases p)
  have "\<And>v ts. slot_at st k bi \<noteq> Some (Some v, ts)"
  proof
    fix v ts
    assume "slot_at st k bi = Some (Some v, ts)"
    then obtain arr where "(k, arr) \<in> set (cells st)" "(Some v, ts) \<in> set arr"
      using slot_at_mem by blast
    then show False using e by (fastforce simp: list_all_iff)
  qed
  then show ?case using Cons p by (auto split: option.splits prod.splits)
qed

text \<open>
  C3. The forward search. The candidate distances are \<open>d\<close>, \<open>d + 3\<close>, \<open>d - 3\<close> if not
  negative, \<open>d + 6\<close>, \<open>d - 6\<close> if not negative, in this order; at each candidate point the
  home cell is tried with the buckets \<open>b\<close>, \<open>b - 1\<close>, \<open>b + 1\<close> modulo 8, then, with the
  neighbour fallback, the eight adjacent cells in scan order with the same buckets; the
  first slot that passes the gate is returned and recorded, and when none passes the query
  returns 0.0 and leaves the state alone. The source's list of distances is the
  specification's for every \<open>d \<ge> 0\<close>, hence for every query driven by speed and horizon;
  for a negative \<open>d\<close> a candidate the source drops projects to the same point as \<open>d\<close>, so
  the search finds the same slot.
\<close>

theorem query_search_order:
  assumes wf: "wf_grid (cells st)"
  shows "find_hit st now lat lon h d nf = Inr (first_match st now (probes lat lon h d nf)) \<and>
     query_target_dist st now now_ms lat lon h d nf
       = Inr (case first_match st now (probes lat lon h d nf) of
                None \<Rightarrow> (0, st)
              | Some (v, gy, gx, bi) \<Rightarrow>
                  (v, st\<lparr>last_hit := Some (gy, gx, bi, now), last_hit_read_ms := now_ms\<rparr>)) \<and>
     query_target st now now_ms lat lon h v_ego lookahead_s nf
       = query_target_dist st now now_ms lat lon h (max 0 (v_ego * lookahead_s)) nf \<and>
     cand_ds (max 0 (v_ego * lookahead_s)) = spec_cand_ds (max 0 (v_ego * lookahead_s)) \<and>
     (0 \<le> d \<longrightarrow> cand_ds d = spec_cand_ds d)"
proof -
  note f = find_hit_first_match [OF wf, of now lat lon h d nf]
  have q: "query_target_dist st now now_ms lat lon h d nf
       = Inr (case first_match st now (probes lat lon h d nf) of
                None \<Rightarrow> (0, st)
              | Some (v, gy, gx, bi) \<Rightarrow>
                  (v, st\<lparr>last_hit := Some (gy, gx, bi, now), last_hit_read_ms := now_ms\<rparr>))"
    by (simp add: query_target_dist_def f split: option.splits)
  have t: "query_target st now now_ms lat lon h v_ego lookahead_s nf
       = query_target_dist st now now_ms lat lon h (max 0 (v_ego * lookahead_s)) nf"
    by (simp add: query_target_def)
  have c: "cand_ds (max 0 (v_ego * lookahead_s)) = spec_cand_ds (max 0 (v_ego * lookahead_s))"
    by (rule cand_ds_nonneg) simp
  have c': "0 \<le> d \<longrightarrow> cand_ds d = spec_cand_ds d"
    by (simp add: cand_ds_nonneg)
  show ?thesis using f q t c c' by blast
qed

theorem query_search_order_witness:
  "wf_grid (cells seeded) \<and> wf_grid (cells fresh) \<and>
   query_target_dist seeded 1121 1121000 (75 / 2) 127 90 0 True
     = Inr (15, seeded\<lparr>last_hit := Some (375000, 1270000, 2, 1121),
                        last_hit_read_ms := 1121000\<rparr>) \<and>
   query_target_dist fresh 1121 1121000 (75 / 2) 127 270 10 True = Inr (0, fresh) \<and>
   cand_ds 10 = [10, 13, 7, 16, 4] \<and> cand_ds 4 = [4, 7, 1, 10] \<and> cand_ds 0 = [0, 3, 6]"
proof -
  have w1: "wf_grid (cells seeded)"
    by (simp add: wf_grid_def seeded_def fresh_def empty_cell_eq)
  have w2: "wf_grid (cells fresh)" by (simp add: wf_grid_def fresh_def)
  have p: "\<exists>rest. probes (75 / 2) 127 90 0 True = ((375000, 1270000), 2) # rest"
    using home_point
    by (simp add: probes_def spec_cand_ds_def point_probes_def cell_order_def bucket_order_def
          bucket_90)
  have t: "neighbor_old_threshold_s seeded = 120" by (simp add: seeded_def fresh_def)
  have m: "first_match seeded 1121 (probes (75 / 2) 127 90 0 True)
             = Some (15, 375000, 1270000, 2)"
    using p seeded_slot t by auto
  have n: "first_match fresh 1121 (probes (75 / 2) 127 270 10 True) = None"
    by (rule first_match_no_values) (simp add: fresh_def)
  have c: "cand_ds 10 = [10, 13, 7, 16, 4] \<and> cand_ds 4 = [4, 7, 1, 10] \<and> cand_ds 0 = [0, 3, 6]"
    using query_search_order [OF w2, of 0 0 0 0 10 True 0 0 0]
      query_search_order [OF w2, of 0 0 0 0 4 True 0 0 0]
      query_search_order [OF w2, of 0 0 0 0 0 True 0 0 0]
    by (simp add: spec_cand_ds_def)
  show ?thesis
    using query_search_order [OF w1, of 1121 "75 / 2" 127 90 0 True 1121000 0 0]
      query_search_order [OF w2, of 1121 "75 / 2" 127 270 10 True 1121000 0 0] w1 w2 m n c
    by simp
qed

subsection \<open>Invalidation\<close>

lemma invalidate_no_marker:
  "last_hit st = None \<Longrightarrow> invalidate_last_hit st now w act = Inr (False, st)"
  by (simp add: invalidate_last_hit_def)

lemma invalidate_expired:
  "last_hit st = Some (gy, gx, b, read_ts) \<Longrightarrow> w < of_int (now - read_ts) \<Longrightarrow>
   invalidate_last_hit st now w act = Inr (False, st)"
  by (simp add: invalidate_last_hit_def)

lemma invalidate_no_cell:
  "last_hit st = Some (gy, gx, b, read_ts) \<Longrightarrow> map_of (cells st) (gy, gx) = None \<Longrightarrow>
   invalidate_last_hit st now w act = Inr (False, st)"
  by (simp add: invalidate_last_hit_def)

lemma invalidate_in_window:
  assumes m: "last_hit st = Some (gy, gx, b, read_ts)"
    and w: "of_int (now - read_ts) \<le> w"
    and a: "map_of (cells st) (gy, gx) = Some arr" and ix: "py_index arr b = Inr j"
  shows "invalidate_last_hit st now w act =
     (if act = ''clear''
      then Inr (True, (put_slot st (gy, gx) arr j (None, None))\<lparr>dirty := True\<rparr>)
      else case fst (arr ! j) of
             Some v \<Rightarrow> Inr (True, (put_slot st (gy, gx) arr j (Some v, Some now))
                                     \<lparr>dirty := True\<rparr>)
           | None \<Rightarrow> Inr (False, st))"
proof -
  have ne: "arr \<noteq> []" using py_index_lt [OF ix] by auto
  have nw: "\<not> w < of_int (now - read_ts)" using w by simp
  show ?thesis
    using m nw a ix ne
    by (simp add: invalidate_last_hit_def split: prod.splits option.splits)
qed

lemma invalidate_clear_slot:
  assumes m: "last_hit st = Some (gy, gx, b, read_ts)"
    and w: "of_int (now - read_ts) \<le> w"
    and s: "slot_at st (gy, gx) b = Some s0"
  shows "\<exists>st'. invalidate_last_hit st now w ''clear'' = Inr (True, st') \<and> dirty st' \<and>
           slot_at st' (gy, gx) b = Some (None, None)"
proof -
  obtain arr j where a: "map_of (cells st) (gy, gx) = Some arr"
    and ix: "py_index arr b = Inr j"
    using slot_at_SomeD [OF s] by blast
  have lt: "j < length arr" using ix by (rule py_index_lt)
  show ?thesis
    using invalidate_in_window [OF m w a ix, of "''clear''"] slot_at_put_slot [OF lt ix]
    by simp
qed

lemma marker_ok_index:
  assumes mk: "marker_ok st" and m: "last_hit st = Some (gy, gx, b, read_ts)"
    and wf: "wf_grid (cells st)" and a: "map_of (cells st) (gy, gx) = Some arr"
  shows "py_index arr b = Inr (nat b)"
proof -
  have len: "length arr = 8" using wf a by (rule wf_grid_lookup)
  have "0 \<le> b \<and> b < 8" using mk m by (simp add: marker_ok_def)
  then show ?thesis using len by (simp add: py_index_in_range)
qed

lemma invalidate_cases:
  assumes wf: "wf_grid (cells st)" and mk: "marker_ok st"
  shows "(invalidate_last_hit st now w act = Inr (False, st) \<and>
          \<not> (\<exists>gy gx b read_ts s. last_hit st = Some (gy, gx, b, read_ts) \<and>
                of_int (now - read_ts) \<le> w \<and> slot_at st (gy, gx) b = Some s \<and>
                (act = ''clear'' \<or> fst s \<noteq> None))) \<or>
         (\<exists>gy gx b read_ts s st'. last_hit st = Some (gy, gx, b, read_ts) \<and>
                of_int (now - read_ts) \<le> w \<and> slot_at st (gy, gx) b = Some s \<and>
                (act = ''clear'' \<or> fst s \<noteq> None) \<and>
                invalidate_last_hit st now w act = Inr (True, st') \<and> dirty st' \<and>
                slot_at st' (gy, gx) b
                  = Some (if act = ''clear'' then (None, None) else (fst s, Some now)))"
proof (cases "last_hit st")
  case None
  then show ?thesis by (simp add: invalidate_no_marker)
next
  case (Some mkr)
  obtain gy gx b read_ts where m: "last_hit st = Some (gy, gx, b, read_ts)"
    using Some by (cases mkr) auto
  show ?thesis
  proof (cases "w < of_int (now - read_ts)")
    case True
    then show ?thesis using m by (auto simp: invalidate_expired)
  next
    case False
    then have w: "of_int (now - read_ts) \<le> w" by simp
    show ?thesis
    proof (cases "map_of (cells st) (gy, gx)")
      case None
      then have "slot_at st (gy, gx) b = None" by (simp add: slot_at_def)
      then show ?thesis using m None by (auto simp: invalidate_no_cell)
    next
      case (Some arr)
      have ix: "py_index arr b = Inr (nat b)" using mk m wf Some by (rule marker_ok_index)
      have lt: "nat b < length arr" using ix by (rule py_index_lt)
      have s: "slot_at st (gy, gx) b = Some (arr ! nat b)"
        using Some ix by (simp add: slot_at_def)
      note r = invalidate_in_window [OF m w Some ix, of act]
      show ?thesis
      proof (cases "act = ''clear''")
        case True
        have "invalidate_last_hit st now w act
                = Inr (True, (put_slot st (gy, gx) arr (nat b) (None, None))\<lparr>dirty := True\<rparr>)"
          using r True by simp
        moreover have "slot_at ((put_slot st (gy, gx) arr (nat b) (None, None))\<lparr>dirty := True\<rparr>)
                 (gy, gx) b = Some (None, None)"
          using lt ix by (rule slot_at_put_slot)
        ultimately show ?thesis using m w s True by auto
      next
        case nc: False
        show ?thesis
        proof (cases "fst (arr ! nat b)")
          case None
          then show ?thesis using r nc m s by auto
        next
          case (Some v)
          have "invalidate_last_hit st now w act
                = Inr (True, (put_slot st (gy, gx) arr (nat b) (Some v, Some now))\<lparr>dirty := True\<rparr>)"
            using r nc Some by simp
          moreover have "slot_at ((put_slot st (gy, gx) arr (nat b) (Some v, Some now))
                   \<lparr>dirty := True\<rparr>) (gy, gx) b = Some (Some v, Some now)"
            using lt ix by (rule slot_at_put_slot)
          moreover obtain ts0 where "arr ! nat b = (Some v, ts0)"
            using Some by (cases "arr ! nat b") auto
          ultimately show ?thesis using m w s nc by auto
        qed
      qed
    qed
  qed
qed

lemma cleared_facts:
  "wf_grid (cells cleared)" "marker_ok cleared"
  "last_hit cleared = Some (375000, 1270000, 2, 1121)"
  "slot_at cleared (375000, 1270000) 2 = Some (None, None)"
  by (simp_all add: cleared_def seeded_def fresh_def wf_grid_def marker_ok_def slot_at_def
        py_index_def empty_cell_eq)

lemma cleared_reachable:
  "query_target_dist seeded 1121 1121000 (75 / 2) 127 90 0 True
     = Inr (15, seeded\<lparr>last_hit := Some (375000, 1270000, 2, 1121),
                        last_hit_read_ms := 1121000\<rparr>) \<and>
   invalidate_last_hit (seeded\<lparr>last_hit := Some (375000, 1270000, 2, 1121),
                        last_hit_read_ms := 1121000\<rparr>) 1121 2 ''clear'' = Inr (True, cleared)"
proof -
  have s: "slot_at seeded (375000, 1270000) (heading_to_bucket 90) = Some (Some 15, Some 1000)"
    by (simp add: bucket_90 seeded_slot)
  have t: "neighbor_old_threshold_s seeded \<le> 1121 - 1000" by (simp add: seeded_def fresh_def)
  have f: "find_hit seeded 1121 (75 / 2) 127 90 0 True = Inr (Some (15, 375000, 1270000, 2))"
    using find_hit_home [OF s home_point t] by (simp add: bucket_90)
  have q: "query_target_dist seeded 1121 1121000 (75 / 2) 127 90 0 True
     = Inr (15, seeded\<lparr>last_hit := Some (375000, 1270000, 2, 1121),
                        last_hit_read_ms := 1121000\<rparr>)"
    using f by (simp add: query_target_dist_def)
  have i: "invalidate_last_hit (seeded\<lparr>last_hit := Some (375000, 1270000, 2, 1121),
                        last_hit_read_ms := 1121000\<rparr>) 1121 2 ''clear'' = Inr (True, cleared)"
    by (simp add: invalidate_last_hit_def cleared_def seeded_def fresh_def py_index_def
        put_slot_def empty_cell_eq)
  show ?thesis using q i by blast
qed

lemma cleared_query:
  "query_target_dist cleared 1122 1122000 (75 / 2) 127 90 0 True = Inr (0, cleared)"
proof -
  have "first_match cleared 1122 (probes (75 / 2) 127 90 0 True) = None"
    by (rule first_match_no_values) (simp add: cleared_def seeded_def fresh_def empty_cell_eq)
  then show ?thesis
    using find_hit_first_match [OF cleared_facts(1), of 1122 "75 / 2" 127 90 0 True]
    by (simp add: query_target_dist_def)
qed

text \<open>
  C8. The window of \<^verbatim>\<open>invalidate_last_hit\<close>. Without a marker, or when more than
  \<open>window_s\<close> seconds have passed since the marked hit, the call returns false and the
  state is the one it was given. After a query hit, a call with the action "clear" inside
  the window returns true and empties the slot that was hit, and no later query with the
  same arguments returns that slot.
\<close>

theorem invalidate_window_semantics:
  "((last_hit st = None \<or>
     (\<exists>gy gx b read_ts. last_hit st = Some (gy, gx, b, read_ts) \<and> w < of_int (now - read_ts)))
      \<longrightarrow> invalidate_last_hit st now w act = Inr (False, st)) \<and>
   (find_hit st tq lat lon h d nf = Inr (Some (v, cy, cx, bi)) \<and> of_int (now - tq) \<le> w \<longrightarrow>
      (\<exists>st1 st2.
         query_target_dist st tq tq_ms lat lon h d nf = Inr (v, st1) \<and>
         invalidate_last_hit st1 now w ''clear'' = Inr (True, st2) \<and>
         slot_at st2 (cy, cx) bi = Some (None, None) \<and>
         (\<forall>now' v'. find_hit st2 now' lat lon h d nf \<noteq> Inr (Some (v', cy, cx, bi)))))"
proof -
  have a: "(last_hit st = None \<or>
     (\<exists>gy gx b read_ts. last_hit st = Some (gy, gx, b, read_ts) \<and> w < of_int (now - read_ts)))
      \<longrightarrow> invalidate_last_hit st now w act = Inr (False, st)"
    by (auto simp: invalidate_no_marker invalidate_expired)
  have b: "find_hit st tq lat lon h d nf = Inr (Some (v, cy, cx, bi)) \<and> of_int (now - tq) \<le> w \<longrightarrow>
      (\<exists>st1 st2.
         query_target_dist st tq tq_ms lat lon h d nf = Inr (v, st1) \<and>
         invalidate_last_hit st1 now w ''clear'' = Inr (True, st2) \<and>
         slot_at st2 (cy, cx) bi = Some (None, None) \<and>
         (\<forall>now' v'. find_hit st2 now' lat lon h d nf \<noteq> Inr (Some (v', cy, cx, bi))))"
  proof
    assume asm: "find_hit st tq lat lon h d nf = Inr (Some (v, cy, cx, bi)) \<and> of_int (now - tq) \<le> w"
    define st1 where "st1 = st\<lparr>last_hit := Some (cy, cx, bi, tq), last_hit_read_ms := tq_ms\<rparr>"
    have q: "query_target_dist st tq tq_ms lat lon h d nf = Inr (v, st1)"
      using asm by (simp add: query_target_dist_def st1_def)
    obtain ts where s: "slot_at st (cy, cx) bi = Some (Some v, Some ts)"
      using find_hit_slot asm by blast
    have s1: "slot_at st1 (cy, cx) bi = Some (Some v, Some ts)"
      using s by (simp add: slot_at_def st1_def)
    have m: "last_hit st1 = Some (cy, cx, bi, tq)" by (simp add: st1_def)
    have w: "of_int (now - tq) \<le> w" using asm by simp
    obtain st2 where i: "invalidate_last_hit st1 now w ''clear'' = Inr (True, st2)"
      and e: "slot_at st2 (cy, cx) bi = Some (None, None)"
      using invalidate_clear_slot [OF m w s1] by blast
    have n: "\<forall>now' v'. find_hit st2 now' lat lon h d nf \<noteq> Inr (Some (v', cy, cx, bi))"
      using e by (auto dest!: find_hit_slot)
    show "\<exists>st1 st2.
         query_target_dist st tq tq_ms lat lon h d nf = Inr (v, st1) \<and>
         invalidate_last_hit st1 now w ''clear'' = Inr (True, st2) \<and>
         slot_at st2 (cy, cx) bi = Some (None, None) \<and>
         (\<forall>now' v'. find_hit st2 now' lat lon h d nf \<noteq> Inr (Some (v', cy, cx, bi)))"
      using q i e n by blast
  qed
  show ?thesis using a b by blast
qed

theorem invalidate_window_semantics_witness:
  "last_hit seeded = None \<and>
   invalidate_last_hit seeded 1121 2 ''clear'' = Inr (False, seeded) \<and>
   invalidate_last_hit cleared 1124 2 ''clear'' = Inr (False, cleared) \<and>
   find_hit seeded 1121 (75 / 2) 127 90 0 True = Inr (Some (15, 375000, 1270000, 2)) \<and>
   (\<exists>st1 st2.
      query_target_dist seeded 1121 1121000 (75 / 2) 127 90 0 True = Inr (15, st1) \<and>
      invalidate_last_hit st1 1122 2 ''clear'' = Inr (True, st2) \<and>
      slot_at st2 (375000, 1270000) 2 = Some (None, None) \<and>
      find_hit st2 1122 (75 / 2) 127 90 0 True \<noteq> Inr (Some (15, 375000, 1270000, 2)))"
proof -
  have m: "last_hit seeded = None" by (simp add: seeded_def fresh_def)
  have a: "invalidate_last_hit seeded 1121 2 ''clear'' = Inr (False, seeded)"
    using invalidate_window_semantics [where st = seeded and now = 1121 and w = 2
        and act = "''clear''"] m
    by simp
  have b: "invalidate_last_hit cleared 1124 2 ''clear'' = Inr (False, cleared)"
    using invalidate_window_semantics [where st = cleared and now = 1124 and w = 2
        and act = "''clear''"] cleared_facts(3)
    by simp
  have s: "slot_at seeded (375000, 1270000) (heading_to_bucket 90) = Some (Some 15, Some 1000)"
    by (simp add: bucket_90 seeded_slot)
  have t: "neighbor_old_threshold_s seeded \<le> 1121 - 1000" by (simp add: seeded_def fresh_def)
  have f: "find_hit seeded 1121 (75 / 2) 127 90 0 True = Inr (Some (15, 375000, 1270000, 2))"
    using find_hit_home [OF s home_point t] by (simp add: bucket_90)
  have c: "\<exists>st1 st2.
      query_target_dist seeded 1121 1121000 (75 / 2) 127 90 0 True = Inr (15, st1) \<and>
      invalidate_last_hit st1 1122 2 ''clear'' = Inr (True, st2) \<and>
      slot_at st2 (375000, 1270000) 2 = Some (None, None) \<and>
      find_hit st2 1122 (75 / 2) 127 90 0 True \<noteq> Inr (Some (15, 375000, 1270000, 2))"
    using invalidate_window_semantics [where st = seeded and now = 1122 and w = 2
        and tq = 1121 and lat = "75 / 2" and lon = 127 and h = 90 and d = 0 and nf = True
        and v = 15 and cy = 375000 and cx = 1270000 and bi = 2 and tq_ms = 1121000] f
    by simp blast
  show ?thesis using m a b f c by blast
qed

text \<open>
  C7, as the source has it. \<^verbatim>\<open>invalidate_last_hit\<close> returns true exactly when it
  writes the slot: a marker is recorded, the window has not passed, the marked cell exists,
  and the action is "clear" or the slot holds a value. Then the store is dirty and the
  slot is empty ("clear") or keeps its value with the timestamp \<open>now\<close>; when the
  result is false the state is unchanged. A true result does not tell that the slot
  changed.
\<close>

theorem invalidate_reports_write:
  assumes wf: "wf_grid (cells st)" and mk: "marker_ok st"
  shows "\<exists>r st'. invalidate_last_hit st now w act = Inr (r, st') \<and>
     (r = (\<exists>gy gx b read_ts s. last_hit st = Some (gy, gx, b, read_ts) \<and>
              of_int (now - read_ts) \<le> w \<and> slot_at st (gy, gx) b = Some s \<and>
              (act = ''clear'' \<or> fst s \<noteq> None))) \<and>
     (\<not> r \<longrightarrow> st' = st) \<and>
     (r \<longrightarrow> dirty st' \<and>
        (\<exists>gy gx b read_ts s. last_hit st = Some (gy, gx, b, read_ts) \<and>
           slot_at st (gy, gx) b = Some s \<and>
           slot_at st' (gy, gx) b
             = Some (if act = ''clear'' then (None, None) else (fst s, Some now))))"
  using invalidate_cases [OF wf mk, of now w act] by (elim disjE exE conjE) blast+

theorem invalidate_reports_write_witness:
  "wf_grid (cells cleared) \<and> marker_ok cleared \<and>
   invalidate_last_hit cleared 1121 2 ''age_bump'' = Inr (False, cleared)"
proof -
  obtain r st' where i: "invalidate_last_hit cleared 1121 2 ''age_bump'' = Inr (r, st')"
    and r: "r = (\<exists>gy gx b read_ts s. last_hit cleared = Some (gy, gx, b, read_ts) \<and>
              of_int (1121 - read_ts) \<le> (2::real) \<and> slot_at cleared (gy, gx) b = Some s \<and>
              (''age_bump'' = ''clear'' \<or> fst s \<noteq> None))"
    and n: "\<not> r \<longrightarrow> st' = cleared"
    using invalidate_reports_write [OF cleared_facts(1) cleared_facts(2), of 1121 2 "''age_bump''"]
    by blast
  have "\<not> r" using r cleared_facts(3) cleared_facts(4) by auto
  then show ?thesis using i n cleared_facts(1) cleared_facts(2) by simp
qed

text \<open>
  C7, as the claim words it, fails: "clear" on a slot that is already empty returns true
  although the call changes nothing, the state after it being the state before it.
\<close>

theorem invalidate_clear_true_without_change:
  "invalidate_last_hit cleared 1121 2 ''clear'' = Inr (True, cleared)"
  by (simp add: invalidate_last_hit_def cleared_def seeded_def fresh_def py_index_def
        put_slot_def empty_cell_eq)

subsection \<open>Loading\<close>

lemma fix_pair_not_pair: "\<not> is_pair pair \<Longrightarrow> fix_pair rt pair = Inr (None, None)"
  by (cases pair rule: is_pair.cases) (simp_all add: fix_pair_def)

lemma fix_pairs_length: "fix_pairs rt xs = Inr ss \<Longrightarrow> length ss = length xs"
  by (induction xs arbitrary: ss) (auto split: sum.splits)

lemma fix_pairs_nth:
  "fix_pairs rt xs = Inr ss \<Longrightarrow> i < length xs \<Longrightarrow> fix_pair rt (xs ! i) = Inr (ss ! i)"
proof (induction xs arbitrary: ss i)
  case Nil
  then show ?case by simp
next
  case (Cons x xs)
  then show ?case by (cases i) (auto split: sum.splits)
qed

lemma fix_pairs_no_pairs:
  "list_all (\<lambda>x. \<not> is_pair x) xs \<Longrightarrow> fix_pairs rt xs = Inr (replicate (length xs) (None, None))"
  by (induction xs) (auto simp: fix_pair_not_pair)

lemma fix_cell_not_list8:
  "(\<And>xs. arr = JList xs \<Longrightarrow> length xs \<noteq> 8) \<Longrightarrow> fix_cell rt arr = Inr (replicate 8 (None, None))"
  by (cases arr) (auto simp: fix_cell_def)

lemma restore_cells_step:
  "parse_key rt key = Inr k \<Longrightarrow> fix_cell rt arr = Inr fixed \<Longrightarrow>
   restore_cells rt ((key, arr) # rest) restored
     = restore_cells rt rest (AList.update k fixed restored)"
  by (cases k) simp

lemma demo_decode: "decode_payload (demo_runtime d) [0x7B] = Inr d"
  by (simp add: decode_payload_def is_gzip_def demo_runtime_fields)

lemma demo_parse_key_12: "parse_key (demo_runtime d) ''1,2'' = Inr (1, 2)"
  by (simp add: parse_key_def demo_runtime_fields int_of_decimal_def digit_of_char_def)

lemma stored_facts:
  "params stored KEY = Some [0x7B]"
  "stored\<lparr>params := (params stored)(KEY := None), cells := [], dirty := False\<rparr> = fresh"
  by (simp_all add: stored_def fresh_def)

lemma load_stored:
  "load_from_params_if_exists rt stored =
     (case load_try rt [0x7B] of
        Inl e \<Rightarrow> fresh
      | Inr None \<Rightarrow> fresh
      | Inr (Some restored) \<Rightarrow> stored\<lparr>cells := restored\<rparr>)"
  by (simp add: load_from_params_if_exists_def params_get_def params_delete_def params_remove_def
        stored_def fresh_def KEY_def split: sum.splits option.splits)

lemma mixed_fix_cell:
  "fix_cell rt mixed_cell = Inr (empty_cell[0 := (Some 5, Some 100)])"
  by (simp add: mixed_cell_def fix_cell_def fix_pair_def py_float_def py_int_def empty_cell_eq)

lemma mixed_load_try:
  "load_try (demo_runtime mixed_doc) [0x7B]
     = Inr (Some [((375000, 1270000), empty_cell[0 := (Some 5, Some 100)])])"
  by (simp add: load_try_def decode_payload_def is_gzip_def demo_runtime_fields mixed_doc_def
        doc_of_def mixed_cell_def demo_parse_key fix_cell_def fix_pair_def py_float_def py_int_def
        empty_cell_eq)

lemma frac_load_try:
  "load_try (demo_runtime frac_doc) [0x7B]
     = Inr (Some [((375000, 1270000), empty_cell[2 := (Some 5, None)])])"
  by (simp add: load_try_def demo_decode demo_runtime_fields frac_doc_def
        doc_of_def half_cell_def demo_parse_key fix_cell_def fix_pair_def py_float_def py_int_def
        empty_cell_eq)

text \<open>
  C6, as the source has it. A stored cell that is not a list of exactly eight entries is
  rebuilt as eight empty slots and the load goes on with the next cell. In a list of
  exactly eight entries each entry is repaired on its own: an entry that is not a
  two-element list becomes one empty slot, the two-element entries are converted and kept;
  a list of eight entries none of which is a two-element list comes out as eight empty
  slots.
\<close>

theorem load_repairs_cells:
  "((\<forall>xs. arr = JList xs \<longrightarrow> length xs \<noteq> 8) \<longrightarrow>
      fix_cell rt arr = Inr (replicate 8 (None, None)) \<and>
      (parse_key rt key = Inr k \<longrightarrow>
         restore_cells rt ((key, arr) # rest) restored
           = restore_cells rt rest (AList.update k (replicate 8 (None, None)) restored))) \<and>
   (length xs = 8 \<and> fix_cell rt (JList xs) = Inr ss \<longrightarrow>
      length ss = 8 \<and>
      (\<forall>i<8. fix_pair rt (xs ! i) = Inr (ss ! i) \<and>
              (\<not> is_pair (xs ! i) \<longrightarrow> ss ! i = (None, None)))) \<and>
   (length xs = 8 \<and> list_all (\<lambda>x. \<not> is_pair x) xs \<longrightarrow>
      fix_cell rt (JList xs) = Inr (replicate 8 (None, None)))"
proof -
  have a: "(\<forall>xs. arr = JList xs \<longrightarrow> length xs \<noteq> 8) \<longrightarrow>
      fix_cell rt arr = Inr (replicate 8 (None, None)) \<and>
      (parse_key rt key = Inr k \<longrightarrow>
         restore_cells rt ((key, arr) # rest) restored
           = restore_cells rt rest (AList.update k (replicate 8 (None, None)) restored))"
  proof
    assume n: "\<forall>xs. arr = JList xs \<longrightarrow> length xs \<noteq> 8"
    then have f: "fix_cell rt arr = Inr (replicate 8 (None, None))"
      by (intro fix_cell_not_list8) blast
    then show "fix_cell rt arr = Inr (replicate 8 (None, None)) \<and>
      (parse_key rt key = Inr k \<longrightarrow>
         restore_cells rt ((key, arr) # rest) restored
           = restore_cells rt rest (AList.update k (replicate 8 (None, None)) restored))"
      by (simp add: restore_cells_step)
  qed
  have b: "length xs = 8 \<and> fix_cell rt (JList xs) = Inr ss \<longrightarrow>
      length ss = 8 \<and>
      (\<forall>i<8. fix_pair rt (xs ! i) = Inr (ss ! i) \<and>
              (\<not> is_pair (xs ! i) \<longrightarrow> ss ! i = (None, None)))"
  proof
    assume h: "length xs = 8 \<and> fix_cell rt (JList xs) = Inr ss"
    then have f: "fix_pairs rt xs = Inr ss" by (auto simp: fix_cell_def)
    have l: "length ss = 8" using fix_pairs_length [OF f] h by simp
    have n: "\<forall>i<8. fix_pair rt (xs ! i) = Inr (ss ! i)"
      using fix_pairs_nth [OF f] h by simp
    have e: "\<forall>i<8. \<not> is_pair (xs ! i) \<longrightarrow> ss ! i = (None, None)"
    proof (intro allI impI)
      fix i :: nat
      assume "i < 8" and "\<not> is_pair (xs ! i)"
      then show "ss ! i = (None, None)"
        using n fix_pair_not_pair [of "xs ! i" rt] by simp
    qed
    show "length ss = 8 \<and>
      (\<forall>i<8. fix_pair rt (xs ! i) = Inr (ss ! i) \<and>
              (\<not> is_pair (xs ! i) \<longrightarrow> ss ! i = (None, None)))"
      using l n e by blast
  qed
  have c: "length xs = 8 \<and> list_all (\<lambda>x. \<not> is_pair x) xs \<longrightarrow>
      fix_cell rt (JList xs) = Inr (replicate 8 (None, None))"
    using fix_pairs_no_pairs [of xs rt] by (auto simp: fix_cell_def)
  show ?thesis using a b c by blast
qed

theorem load_repairs_cells_witness:
  "fix_cell (demo_runtime JNull) (JStr ''x'') = Inr (replicate 8 (None, None)) \<and>
   restore_cells (demo_runtime JNull) [(''1,2'', JStr ''x'')] []
     = Inr [((1, 2), replicate 8 (None, None))] \<and>
   fix_cell (demo_runtime JNull) mixed_cell = Inr (empty_cell[0 := (Some 5, Some 100)]) \<and>
   (empty_cell[0 := (Some 5, Some 100)]) ! 1 = (None, None) \<and>
   fix_cell (demo_runtime JNull) (JList (replicate 8 (JInt 7))) = Inr (replicate 8 (None, None))"
proof -
  note t1 = load_repairs_cells [where arr = "JStr ''x''" and rt = "demo_runtime JNull"
      and key = "''1,2''" and k = "(1, 2)" and rest = "[]" and restored = "[]"
      and xs = "[JList [JFloat 5, JInt 100], JInt 7, JList [JNull, JNull],
            JList [JNull, JNull], JList [JNull, JNull], JList [JNull, JNull],
            JList [JNull, JNull], JList [JNull, JNull]]"
      and ss = "empty_cell[0 := (Some 5, Some 100)]"]
  note t2 = load_repairs_cells [where arr = "JStr ''x''" and rt = "demo_runtime JNull"
      and xs = "replicate 8 (JInt 7)"]
  have a: "fix_cell (demo_runtime JNull) (JStr ''x'') = Inr (replicate 8 (None, None)) \<and>
     restore_cells (demo_runtime JNull) [(''1,2'', JStr ''x'')] []
       = Inr [((1, 2), replicate 8 (None, None))]"
    using t1 by (simp add: demo_parse_key_12)
  have m: "fix_cell (demo_runtime JNull) mixed_cell = Inr (empty_cell[0 := (Some 5, Some 100)])"
    by (rule mixed_fix_cell)
  have "\<forall>i<8. \<not> is_pair
             ([JList [JFloat 5, JInt 100], JInt 7, JList [JNull, JNull],
               JList [JNull, JNull], JList [JNull, JNull], JList [JNull, JNull],
               JList [JNull, JNull], JList [JNull, JNull]] ! i) \<longrightarrow>
           (empty_cell[0 := (Some 5, Some 100)]) ! i = (None, None)"
    using t1 m by (simp add: mixed_cell_def)
  then have "\<not> is_pair
             ([JList [JFloat 5, JInt 100], JInt 7, JList [JNull, JNull],
               JList [JNull, JNull], JList [JNull, JNull], JList [JNull, JNull],
               JList [JNull, JNull], JList [JNull, JNull]] ! 1) \<longrightarrow>
           (empty_cell[0 := (Some 5, Some 100)]) ! 1 = (None, None)"
    by (elim allE [of _ 1]) simp
  then have b: "(empty_cell[0 := (Some 5, Some 100)]) ! 1 = (None, None)"
    by simp
  have c: "fix_cell (demo_runtime JNull) (JList (replicate 8 (JInt 7)))
             = Inr (replicate 8 (None, None))"
    using t2 by (simp add: list_all_length)
  show ?thesis using a m b c by blast
qed

text \<open>
  C6, as the claim words it, fails: a stored cell of eight entries whose second entry is
  the bare number 7 does not consist of eight two-element pairs, yet it is not rebuilt as
  eight empty slots, the pair \<^verbatim>\<open>[5.0, 100]\<close> in its first entry is kept.
\<close>

theorem load_keeps_pairs_of_damaged_cell:
  "cells (load_from_params_if_exists
            (demo_runtime (doc_of (JStr ''v4'') (JInt 8)
               [(''375000,1270000'',
                 JList [JList [JFloat 5, JInt 100], JInt 7, JList [JNull, JNull],
                        JList [JNull, JNull], JList [JNull, JNull], JList [JNull, JNull],
                        JList [JNull, JNull], JList [JNull, JNull]])])) stored)
     = [((375000, 1270000),
          [(Some 5, Some 100), (None, None), (None, None), (None, None),
           (None, None), (None, None), (None, None), (None, None)])]"
  using mixed_load_try
  by (simp add: load_stored empty_cell_eq mixed_doc_def mixed_cell_def)

text \<open>
  C5, as the source has it. For a stored, non-empty payload the load ends with the empty
  grid, the clean flag and the key deleted from the store whenever an exception is raised
  in the \<^verbatim>\<open>try\<close> (decompression or parsing fails, the document is not an object, a
  conversion or a cell key fails), whenever the format tag is not \<^verbatim>\<open>"v4"\<close>, and whenever
  \<^verbatim>\<open>int(dir_buckets)\<close>, with 8 for a missing entry, is not 8. The load is a total function
  of the state: nothing is raised to the caller.
\<close>

theorem load_purges_foreign_and_corrupt:
  assumes p: "params st KEY = Some raw" and ne: "raw \<noteq> []"
  shows "((\<exists>e. load_try rt raw = Inl e) \<longrightarrow>
            load_from_params_if_exists rt st
              = st\<lparr>params := (params st)(KEY := None), cells := [], dirty := False\<rparr>) \<and>
         ((\<exists>e. decode_payload rt raw = Inl e) \<longrightarrow>
            load_from_params_if_exists rt st
              = st\<lparr>params := (params st)(KEY := None), cells := [], dirty := False\<rparr>) \<and>
         (\<forall>j. decode_payload rt raw = Inr j \<and> (\<forall>data. j \<noteq> JObj data) \<longrightarrow>
            load_from_params_if_exists rt st
              = st\<lparr>params := (params st)(KEY := None), cells := [], dirty := False\<rparr>) \<and>
         (\<forall>data. decode_payload rt raw = Inr (JObj data) \<and>
                 map_of data ''format'' \<noteq> Some (JStr ''v4'') \<longrightarrow>
            load_from_params_if_exists rt st
              = st\<lparr>params := (params st)(KEY := None), cells := [], dirty := False\<rparr>) \<and>
         (\<forall>data. decode_payload rt raw = Inr (JObj data) \<and>
                 py_int rt (case map_of data ''dir_buckets'' of None \<Rightarrow> JInt 8 | Some x \<Rightarrow> x)
                   \<noteq> Inr 8 \<longrightarrow>
            load_from_params_if_exists rt st
              = st\<lparr>params := (params st)(KEY := None), cells := [], dirty := False\<rparr>)"
proof -
  have l: "load_from_params_if_exists rt st =
     (case load_try rt raw of
        Inr (Some restored) \<Rightarrow> st\<lparr>cells := restored, dirty := False\<rparr>
      | _ \<Rightarrow> st\<lparr>params := (params st)(KEY := None), cells := [], dirty := False\<rparr>)"
    using p ne
    by (simp add: load_from_params_if_exists_def params_get_def params_delete_def
          params_remove_def split: sum.splits option.splits)
  have a: "(\<exists>e. load_try rt raw = Inl e) \<longrightarrow>
            load_from_params_if_exists rt st
              = st\<lparr>params := (params st)(KEY := None), cells := [], dirty := False\<rparr>"
    using l by auto
  have b: "(\<exists>e. decode_payload rt raw = Inl e) \<longrightarrow>
            load_from_params_if_exists rt st
              = st\<lparr>params := (params st)(KEY := None), cells := [], dirty := False\<rparr>"
    using l by (auto simp: load_try_def)
  have c: "\<forall>j. decode_payload rt raw = Inr j \<and> (\<forall>data. j \<noteq> JObj data) \<longrightarrow>
            load_from_params_if_exists rt st
              = st\<lparr>params := (params st)(KEY := None), cells := [], dirty := False\<rparr>"
    using l by (auto simp: load_try_def split: json.splits)
  have d: "\<forall>data. decode_payload rt raw = Inr (JObj data) \<and>
                 map_of data ''format'' \<noteq> Some (JStr ''v4'') \<longrightarrow>
            load_from_params_if_exists rt st
              = st\<lparr>params := (params st)(KEY := None), cells := [], dirty := False\<rparr>"
    using l by (auto simp: load_try_def)
  have e: "\<forall>data. decode_payload rt raw = Inr (JObj data) \<and>
                 py_int rt (case map_of data ''dir_buckets'' of None \<Rightarrow> JInt 8 | Some x \<Rightarrow> x)
                   \<noteq> Inr 8 \<longrightarrow>
            load_from_params_if_exists rt st
              = st\<lparr>params := (params st)(KEY := None), cells := [], dirty := False\<rparr>"
    using l by (auto simp: load_try_def split: sum.splits)
  show ?thesis using a b c d e by blast
qed

theorem load_purges_foreign_and_corrupt_witness:
  "params stored KEY = Some [0x7B] \<and> [0x7B] \<noteq> ([] :: byte list) \<and>
   load_from_params_if_exists (demo_runtime (doc_of (JStr ''v2'') (JInt 8) [])) stored = fresh \<and>
   load_from_params_if_exists (demo_runtime (doc_of (JStr ''v4'') (JInt 16) [])) stored = fresh \<and>
   load_from_params_if_exists
     (demo_runtime (doc_of (JStr ''v4'') (JInt 8) [(''abc'', half_cell)])) stored = fresh \<and>
   load_from_params_if_exists (demo_runtime (JList [])) stored = fresh"
proof -
  have ne: "[0x7B] \<noteq> ([] :: byte list)" by simp
  note t = load_purges_foreign_and_corrupt [OF stored_facts(1) ne]
  have a: "load_from_params_if_exists (demo_runtime (doc_of (JStr ''v2'') (JInt 8) [])) stored
             = fresh"
    using t [of "demo_runtime (doc_of (JStr ''v2'') (JInt 8) [])"]
    by (simp add: demo_decode doc_of_def stored_facts(2))
  have b: "load_from_params_if_exists (demo_runtime (doc_of (JStr ''v4'') (JInt 16) [])) stored
             = fresh"
    using t [of "demo_runtime (doc_of (JStr ''v4'') (JInt 16) [])"]
    by (simp add: demo_decode doc_of_def py_int_def stored_facts(2))
  have k: "load_try (demo_runtime (doc_of (JStr ''v4'') (JInt 8) [(''abc'', half_cell)])) [0x7B]
             = Inl ValueError"
    by (simp add: load_try_def demo_decode doc_of_def py_int_def parse_key_def)
  have c: "load_from_params_if_exists
             (demo_runtime (doc_of (JStr ''v4'') (JInt 8) [(''abc'', half_cell)])) stored = fresh"
    using t [of "demo_runtime (doc_of (JStr ''v4'') (JInt 8) [(''abc'', half_cell)])"] k
    by (simp add: stored_facts(2))
  have d: "load_from_params_if_exists (demo_runtime (JList [])) stored = fresh"
    using t [of "demo_runtime (JList [])"]
    by (simp add: demo_decode stored_facts(2))
  show ?thesis using stored_facts(1) ne a b c d by blast
qed

text \<open>
  C5, as the claim words it, fails: a payload whose \<^verbatim>\<open>dir_buckets\<close> is 8.5 is loaded,
  since \<^verbatim>\<open>int(8.5)\<close> is 8; the grid is not empty afterwards and the key is still stored.
\<close>

theorem load_accepts_fractional_bucket_count:
  "cells (load_from_params_if_exists
            (demo_runtime (doc_of (JStr ''v4'') (JFloat (17 / 2))
               [(''375000,1270000'', half_cell)])) stored)
     = [((375000, 1270000),
          [(None, None), (None, None), (Some 5, None), (None, None),
           (None, None), (None, None), (None, None), (None, None)])] \<and>
   params (load_from_params_if_exists
            (demo_runtime (doc_of (JStr ''v4'') (JFloat (17 / 2))
               [(''375000,1270000'', half_cell)])) stored) KEY = Some [0x7B]"
  using frac_load_try
  by (simp add: load_stored empty_cell_eq frac_doc_def stored_facts(1))

subsection \<open>Saving and loading again\<close>

lemma digit_char_mem: "n < 10 \<Longrightarrow> ''0123456789'' ! n \<in> set ''0123456789''"
  by (rule nth_mem) simp

lemma str_of_nat_digits: "set (str_of_nat n) \<subseteq> set ''0123456789''"
proof (induction n rule: str_of_nat.induct)
  case (1 n)
  show ?case
  proof (cases "n < 10")
    case True
    then show ?thesis
      using digit_char_mem [of n] by (subst str_of_nat.simps) simp
  next
    case False
    have m: "n mod 10 < 10" by simp
    show ?thesis
      using False 1 digit_char_mem [OF m] by (subst str_of_nat.simps) simp
  qed
qed

lemma str_of_int_no_comma: "CHR '','' \<notin> set (str_of_int i)"
  using str_of_nat_digits [of "nat i"] str_of_nat_digits [of "nat (- i)"]
  by (auto simp: str_of_int_def)

lemma split_comma_no_comma: "CHR '','' \<notin> set b \<Longrightarrow> split_comma b = [b]"
  by (induction b) auto

lemma split_comma_append:
  "CHR '','' \<notin> set a \<Longrightarrow> split_comma (a @ CHR '','' # b) = a # split_comma b"
  by (induction a) auto

lemma split_comma_key_of: "split_comma (key_of gy gx) = [str_of_int gy, str_of_int gx]"
  by (simp add: key_of_def split_comma_append split_comma_no_comma str_of_int_no_comma)

lemma parse_key_key_of:
  "int_of_str rt (str_of_int gy) = Inr gy \<Longrightarrow> int_of_str rt (str_of_int gx) = Inr gx \<Longrightarrow>
   parse_key rt (key_of gy gx) = Inr (gy, gx)"
  by (simp add: parse_key_def split_comma_key_of)

lemma update_fresh: "k \<notin> fst ` set al \<Longrightarrow> AList.update k v al = al @ [(k, v)]"
  by (induction al) auto

lemma fix_pair_encode_slot: "fix_pair rt (encode_slot s) = Inr s"
  by (cases s) (auto simp: fix_pair_def encode_slot_def py_float_def py_int_def
      split: option.splits)

lemma fix_pairs_encode: "fix_pairs rt (map encode_slot arr) = Inr arr"
  by (induction arr) (simp_all add: fix_pair_encode_slot)

lemma fix_cell_encode:
  "length arr = 8 \<Longrightarrow> fix_cell rt (JList (map encode_slot arr)) = Inr arr"
  by (simp add: fix_cell_def fix_pairs_encode)

lemma keys_parse_Cons:
  "keys_parse rt (((gy, gx), arr) # g) =
     (int_of_str rt (str_of_int gy) = Inr gy \<and> int_of_str rt (str_of_int gx) = Inr gx \<and>
      keys_parse rt g)"
  by (simp add: keys_parse_def)

lemma keys_parse_mem:
  "keys_parse rt g \<Longrightarrow> ((gy, gx), arr) \<in> set g \<Longrightarrow>
   parse_key rt (key_of gy gx) = Inr (gy, gx)"
  by (auto simp: keys_parse_def list_all_iff intro!: parse_key_key_of)

lemma key_of_inj:
  assumes "parse_key rt (key_of gy gx) = Inr (gy, gx)"
    and "parse_key rt (key_of gy' gx') = Inr (gy', gx')"
    and "key_of gy gx = key_of gy' gx'"
  shows "(gy, gx) = (gy', gx')"
proof -
  have "parse_key rt (key_of gy gx) = parse_key rt (key_of gy' gx')"
    using assms(3) by (rule arg_cong)
  then have "(Inr (gy, gx) :: py_exn + cell_key) = Inr (gy', gx')"
    unfolding assms(1) assms(2) .
  then show ?thesis by (simp only: sum.inject)
qed

lemma encode_cells_fold:
  assumes "distinct (map fst g)" and "keys_parse rt g"
    and "\<And>gy gx arr. ((gy, gx), arr) \<in> set g \<Longrightarrow> key_of gy gx \<notin> fst ` set acc"
  shows "fold (\<lambda>((gy, gx), arr) acc. AList.update (key_of gy gx) (JList (map encode_slot arr)) acc)
           g acc = acc @ map encode_cell g"
  using assms
proof (induction g arbitrary: acc)
  case Nil
  then show ?case by simp
next
  case (Cons c g)
  obtain gy gx arr where c: "c = ((gy, gx), arr)" by (cases c) auto
  have pk: "parse_key rt (key_of gy gx) = Inr (gy, gx)"
    using Cons.prems(2) c by (auto intro: keys_parse_mem)
  have fresh: "key_of gy gx \<notin> fst ` set acc" using Cons.prems(3) [of gy gx arr] c by simp
  have d: "distinct (map fst g)" using Cons.prems(1) by simp
  have kp: "keys_parse rt g" using Cons.prems(2) c by (simp add: keys_parse_Cons)
  have nx: "\<And>gy' gx' arr'. ((gy', gx'), arr') \<in> set g \<Longrightarrow>
              key_of gy' gx' \<notin> fst ` set (acc @ [encode_cell c])"
  proof -
    fix gy' gx' arr'
    assume m: "((gy', gx'), arr') \<in> set g"
    have pk': "parse_key rt (key_of gy' gx') = Inr (gy', gx')" using kp m by (rule keys_parse_mem)
    have "(gy, gx) \<notin> fst ` set g" using Cons.prems(1) c by simp
    moreover have "(gy', gx') \<in> fst ` set g" using m by (rule image_eqI [rotated]) simp
    ultimately have "(gy', gx') \<noteq> (gy, gx)" by metis
    then have "key_of gy' gx' \<noteq> key_of gy gx" using key_of_inj [OF pk' pk] by blast
    moreover have "key_of gy' gx' \<notin> fst ` set acc"
      using Cons.prems(3) [of gy' gx' arr'] m by simp
    ultimately show "key_of gy' gx' \<notin> fst ` set (acc @ [encode_cell c])"
      by (simp add: c encode_cell_def)
  qed
  have "fold (\<lambda>((gy, gx), arr) acc. AList.update (key_of gy gx) (JList (map encode_slot arr)) acc)
           (c # g) acc
        = fold (\<lambda>((gy, gx), arr) acc. AList.update (key_of gy gx) (JList (map encode_slot arr)) acc)
           g (acc @ [encode_cell c])"
    using fresh by (simp add: c update_fresh encode_cell_def)
  also have "\<dots> = (acc @ [encode_cell c]) @ map encode_cell g"
    using d kp nx by (rule Cons.IH)
  finally show ?case by simp
qed

lemma encode_cells_map:
  "distinct (map fst g) \<Longrightarrow> keys_parse rt g \<Longrightarrow> encode_cells g = map encode_cell g"
  unfolding encode_cells_def using encode_cells_fold [of g rt "[]"] by simp

lemma restore_cells_encoded:
  assumes "distinct (map fst g)" and "keys_parse rt g" and "wf_grid g"
    and "\<And>c. c \<in> set g \<Longrightarrow> fst c \<notin> fst ` set acc"
  shows "restore_cells rt (map encode_cell g) acc = Inr (acc @ g)"
  using assms
proof (induction g arbitrary: acc)
  case Nil
  then show ?case by simp
next
  case (Cons c g)
  obtain gy gx arr where c: "c = ((gy, gx), arr)" by (cases c) auto
  have pk: "parse_key rt (key_of gy gx) = Inr (gy, gx)"
    using Cons.prems(2) c by (auto intro: keys_parse_mem)
  have len: "length arr = 8" using Cons.prems(3) c by (simp add: wf_grid_def)
  have fc: "fix_cell rt (JList (map encode_slot arr)) = Inr arr" using len by (rule fix_cell_encode)
  have fresh: "(gy, gx) \<notin> fst ` set acc" using Cons.prems(4) [of c] c by simp
  have d: "distinct (map fst g)" using Cons.prems(1) by simp
  have kp: "keys_parse rt g" using Cons.prems(2) c by (simp add: keys_parse_Cons)
  have wf: "wf_grid g" using Cons.prems(3) by (simp add: wf_grid_def)
  have nx: "\<And>c'. c' \<in> set g \<Longrightarrow> fst c' \<notin> fst ` set (acc @ [c])"
  proof -
    fix c' assume m: "c' \<in> set g"
    have "fst c \<notin> fst ` set g" using Cons.prems(1) by simp
    moreover have "fst c' \<in> fst ` set g" using m by (rule imageI)
    ultimately have "fst c' \<noteq> fst c" by metis
    moreover have "fst c' \<notin> fst ` set acc" using Cons.prems(4) [of c'] m by simp
    ultimately show "fst c' \<notin> fst ` set (acc @ [c])" by simp
  qed
  have "restore_cells rt (map encode_cell (c # g)) acc
          = restore_cells rt (map encode_cell g) (acc @ [c])"
    using pk fc fresh by (simp add: c encode_cell_def update_fresh)
  also have "\<dots> = Inr ((acc @ [c]) @ g)" using d kp wf nx by (rule Cons.IH)
  finally show ?case by simp
qed

lemma load_try_payload_obj:
  assumes dk: "distinct (map fst (cells st))" and kp: "keys_parse rt (cells st)"
    and wf: "wf_grid (cells st)"
    and dec: "decode_payload rt raw = Inr (payload_obj st)"
  shows "load_try rt raw = Inr (Some (cells st))"
proof -
  have e: "encode_cells (cells st) = map encode_cell (cells st)"
    using dk kp by (rule encode_cells_map)
  have r: "restore_cells rt (map encode_cell (cells st)) [] = Inr ([] @ cells st)"
    using dk kp wf by (rule restore_cells_encoded) simp
  show ?thesis
    using dec r by (simp add: load_try_def payload_obj_def e py_int_def buckets_def)
qed

lemma load_of_payload:
  assumes dk: "distinct (map fst (cells st))" and kp: "keys_parse rt (cells st)"
    and wf: "wf_grid (cells st)"
    and dec: "decode_payload rt payload = Inr (payload_obj st)" and ne: "payload \<noteq> []"
    and p: "params st' KEY = Some payload"
  shows "load_from_params_if_exists rt st' = st'\<lparr>cells := cells st, dirty := False\<rparr>"
  using load_try_payload_obj [OF dk kp wf dec] ne p
  by (simp add: load_from_params_if_exists_def params_get_def)

lemma digit_of_char_nth: "d < 10 \<Longrightarrow> digit_of_char (''0123456789'' ! d) = Some d"
proof -
  assume "d < 10"
  then have "d \<in> {0, 1, 2, 3, 4, 5, 6, 7, 8, 9}" by auto
  then show ?thesis by (auto simp: digit_of_char_def)
qed

lemma nat_of_digits_snoc:
  "nat_of_digits acc (xs @ [c]) =
     (case nat_of_digits acc xs of
        None \<Rightarrow> None
      | Some m \<Rightarrow> (case digit_of_char c of None \<Rightarrow> None | Some d \<Rightarrow> Some (10 * m + d)))"
  by (induction xs arbitrary: acc) (auto split: option.splits)

lemma nat_of_digits_str_of_nat: "nat_of_digits 0 (str_of_nat n) = Some n"
proof (induction n rule: str_of_nat.induct)
  case (1 n)
  show ?case
  proof (cases "n < 10")
    case True
    then show ?thesis
      by (subst str_of_nat.simps) (simp add: digit_of_char_nth)
  next
    case False
    have m: "n mod 10 < 10" by simp
    have "nat_of_digits 0 (str_of_nat (n div 10)) = Some (n div 10)" using False by (rule 1)
    then show ?thesis
      using False digit_of_char_nth [OF m]
      by (subst str_of_nat.simps) (simp add: nat_of_digits_snoc)
  qed
qed

lemma str_of_nat_not_Nil: "str_of_nat n \<noteq> []"
  by (subst str_of_nat.simps) simp

lemma str_of_nat_no_minus: "CHR ''-'' \<notin> set (str_of_nat n)"
  using str_of_nat_digits [of n] by auto

lemma int_of_decimal_str_of_int: "int_of_decimal (str_of_int i) = Inr i"
proof (cases "i < 0")
  case True
  then show ?thesis
    by (simp add: int_of_decimal_def str_of_int_def str_of_nat_not_Nil nat_of_digits_str_of_nat)
next
  case False
  obtain c cs where s: "str_of_nat (nat i) = c # cs"
    using str_of_nat_not_Nil [of "nat i"] by (cases "str_of_nat (nat i)") auto
  have "c \<noteq> CHR ''-''" using str_of_nat_no_minus [of "nat i"] s by auto
  moreover have "nat_of_digits 0 (c # cs) = Some (nat i)"
    using nat_of_digits_str_of_nat [of "nat i"] s by simp
  ultimately show ?thesis
    using False s by (simp add: int_of_decimal_def str_of_int_def)
qed

lemma keys_parse_demo: "keys_parse (demo_runtime d) g"
  by (simp add: keys_parse_def list_all_iff demo_runtime_fields int_of_decimal_str_of_int
        split: prod.splits)

lemma seeded_grid:
  "distinct (map fst (cells seeded))" "wf_grid (cells seeded)"
  "cells (seeded\<lparr>use_gzip := False\<rparr>) = cells seeded"
  "payload_obj (seeded\<lparr>use_gzip := False\<rparr>) = payload_obj seeded"
  "use_gzip seeded" "gzip_level seeded = 5"
  by (simp_all add: seeded_def fresh_def wf_grid_def empty_cell_eq payload_obj_def)

lemma demo_gzip:
  "is_gzip (0x1F # 0x8B # raw)" "\<not> is_gzip [0x7B]"
  by (simp_all add: is_gzip_def)

text \<open>
  C4. The round trip. Let the grid be a dict of cells with eight slots each. If the library
  round-trips on this payload (the parser returns the document the serializer was given,
  the JSON text is not empty and does not start with the gzip magic bytes, decompression
  undoes compression and the compressed bytes start with the magic bytes, and \<^verbatim>\<open>int\<close>
  reads the cell coordinates back), then \<^verbatim>\<open>_encode_payload\<close> succeeds, with and without
  compression, and loading its bytes gives exactly the grid that was encoded: the same
  cells in the same order, every slot with the same value and the same timestamp. This
  holds for the load into any object and for a new object constructed over the store.
\<close>

theorem save_load_round_trip:
  assumes dk: "distinct (map fst (cells st))" and wf: "wf_grid (cells st)"
    and kp: "keys_parse rt (cells st)"
    and js: "json_loads rt (json_dumps rt (payload_obj st)) = Inr (payload_obj st)"
    and tx: "json_dumps rt (payload_obj st) \<noteq> [] \<and> \<not> is_gzip (json_dumps rt (payload_obj st))"
    and gz: "use_gzip st \<longrightarrow>
       (\<exists>z. gzip_compress rt (gzip_level st) (json_dumps rt (payload_obj st)) = Inr z \<and>
            is_gzip z \<and> gzip_decompress rt z = Inr (json_dumps rt (payload_obj st)))"
  shows "\<exists>payload. encode_payload rt st = Inr payload \<and>
     (\<forall>st'. params st' KEY = Some payload \<longrightarrow>
        load_from_params_if_exists rt st' = st'\<lparr>cells := cells st, dirty := False\<rparr>) \<and>
     (\<forall>store ring threshold_s gzf level. store KEY = Some payload \<longrightarrow>
        cells (init rt store ring threshold_s gzf level) = cells st)"
proof -
  obtain payload where e: "encode_payload rt st = Inr payload"
    and dec: "decode_payload rt payload = Inr (payload_obj st)" and ne: "payload \<noteq> []"
  proof (cases "use_gzip st")
    case True
    then obtain z where z: "gzip_compress rt (gzip_level st) (json_dumps rt (payload_obj st)) = Inr z"
      and g: "is_gzip z" and u: "gzip_decompress rt z = Inr (json_dumps rt (payload_obj st))"
      using gz by blast
    have "encode_payload rt st = Inr z" using True z by (simp add: encode_payload_def)
    moreover have "decode_payload rt z = Inr (payload_obj st)"
      using g u js by (simp add: decode_payload_def)
    moreover have "z \<noteq> []" using g by (auto simp: is_gzip_def)
    ultimately show ?thesis by (rule that)
  next
    case False
    have "encode_payload rt st = Inr (json_dumps rt (payload_obj st))"
      using False by (simp add: encode_payload_def)
    moreover have "decode_payload rt (json_dumps rt (payload_obj st)) = Inr (payload_obj st)"
      using tx js by (simp add: decode_payload_def)
    moreover have "json_dumps rt (payload_obj st) \<noteq> []" using tx by simp
    ultimately show ?thesis by (rule that)
  qed
  have l: "\<And>st'. params st' KEY = Some payload \<Longrightarrow>
        load_from_params_if_exists rt st' = st'\<lparr>cells := cells st, dirty := False\<rparr>"
    using dk kp wf dec ne by (rule load_of_payload)
  have i: "\<And>store ring threshold_s gzf level. store KEY = Some payload \<Longrightarrow>
        cells (init rt store ring threshold_s gzf level) = cells st"
    by (simp add: init_def l)
  show ?thesis using e l i by blast
qed

theorem save_load_round_trip_witness:
  "distinct (map fst (cells seeded)) \<and> wf_grid (cells seeded) \<and>
   keys_parse (demo_runtime (payload_obj seeded)) (cells seeded) \<and>
   encode_payload (demo_runtime (payload_obj seeded)) seeded = Inr [0x1F, 0x8B, 0x7B] \<and>
   cells (init (demo_runtime (payload_obj seeded)) [KEY \<mapsto> [0x1F, 0x8B, 0x7B]] 1 120 True 5)
     = cells seeded \<and>
   encode_payload (demo_runtime (payload_obj seeded)) (seeded\<lparr>use_gzip := False\<rparr>) = Inr [0x7B] \<and>
   cells (init (demo_runtime (payload_obj seeded)) [KEY \<mapsto> [0x7B]] 1 120 False 5)
     = cells seeded"
proof -
  let ?rt = "demo_runtime (payload_obj seeded)"
  have kp: "keys_parse ?rt (cells seeded)" by (rule keys_parse_demo)
  have js: "json_loads ?rt (json_dumps ?rt (payload_obj seeded)) = Inr (payload_obj seeded)"
    by (simp add: demo_runtime_fields)
  have tx: "json_dumps ?rt (payload_obj seeded) \<noteq> [] \<and>
            \<not> is_gzip (json_dumps ?rt (payload_obj seeded))"
    by (simp add: demo_runtime_fields demo_gzip)
  have gz: "use_gzip seeded \<longrightarrow>
       (\<exists>z. gzip_compress ?rt (gzip_level seeded) (json_dumps ?rt (payload_obj seeded)) = Inr z \<and>
            is_gzip z \<and> gzip_decompress ?rt z = Inr (json_dumps ?rt (payload_obj seeded)))"
    by (simp add: demo_runtime_fields demo_gzip)
  have e1: "encode_payload ?rt seeded = Inr [0x1F, 0x8B, 0x7B]"
    by (simp add: encode_payload_def demo_runtime_fields seeded_grid)
  have e2: "encode_payload ?rt (seeded\<lparr>use_gzip := False\<rparr>) = Inr [0x7B]"
    by (simp add: encode_payload_def demo_runtime_fields)
  have c1: "cells (init ?rt [KEY \<mapsto> [0x1F, 0x8B, 0x7B]] 1 120 True 5) = cells seeded"
    using save_load_round_trip [OF seeded_grid(1) seeded_grid(2) kp js tx gz] e1
    by auto
  have kp2: "keys_parse ?rt (cells (seeded\<lparr>use_gzip := False\<rparr>))" by (rule keys_parse_demo)
  have c2: "cells (init ?rt [KEY \<mapsto> [0x7B]] 1 120 False 5) = cells seeded"
    using save_load_round_trip [of "seeded\<lparr>use_gzip := False\<rparr>" ?rt] kp2 js tx e2
    by (simp add: seeded_grid)
  show ?thesis using seeded_grid(1) seeded_grid(2) kp e1 c1 e2 c2 by blast
qed

subsection \<open>Every reachable state is well formed\<close>

lemma fix_cell_length: "fix_cell rt arr = Inr c \<Longrightarrow> length c = 8"
  by (cases arr) (auto simp: fix_cell_def dest: fix_pairs_length split: if_splits)

lemma restore_cells_ok:
  "restore_cells rt cs acc = Inr g \<Longrightarrow> wf_grid acc \<Longrightarrow> distinct (map fst acc) \<Longrightarrow>
   wf_grid g \<and> distinct (map fst g)"
proof (induction cs arbitrary: acc)
  case Nil
  then show ?case by simp
next
  case (Cons c cs)
  obtain key arr where c: "c = (key, arr)" by (cases c)
  obtain k fixed where pk: "parse_key rt key = Inr k" and fc: "fix_cell rt arr = Inr fixed"
    and r: "restore_cells rt cs (AList.update k fixed acc) = Inr g"
    using Cons.prems(1) c by (auto split: sum.splits prod.splits)
  have w: "wf_grid (AList.update k fixed acc)"
    using Cons.prems(2) fix_cell_length [OF fc] by (rule wf_grid_update)
  have d: "distinct (map fst (AList.update k fixed acc))"
    using Cons.prems(3) by (rule distinct_update)
  show ?case using r w d by (rule Cons.IH)
qed

lemma map_sum_Some_Inr: "(map_sum id Some x = Inr (Some g)) = (x = Inr g)"
  by (cases x) auto

lemma load_try_ok:
  assumes "load_try rt raw = Inr (Some g)"
  shows "wf_grid g \<and> distinct (map fst g)"
proof -
  have e: "\<exists>cs. restore_cells rt cs [] = Inr []"
    by (rule exI [of _ "[]"]) simp
  have "\<exists>cs. restore_cells rt cs [] = Inr g"
    using assms e
    by (auto simp: load_try_def map_sum_Some_Inr
        split: sum.splits json.splits if_splits option.splits)
  then obtain cs where "restore_cells rt cs [] = Inr g" by blast
  then show ?thesis by (rule restore_cells_ok) (simp_all add: wf_grid_def)
qed

lemma load_cells_ok:
  assumes "wf_grid (cells st)" "distinct (map fst (cells st))"
  shows "wf_grid (cells (load_from_params_if_exists rt st)) \<and>
         distinct (map fst (cells (load_from_params_if_exists rt st)))"
  using assms
  by (auto simp: load_from_params_if_exists_def wf_grid_def[of "[]"] dest: load_try_ok
      split: option.splits sum.splits)

lemma init_ok: "state_ok (init rt store ring threshold_s gz level)"
proof -
  let ?st0 = "\<lparr>neighbor_ring = max 0 ring, neighbor_old_threshold_s = threshold_s,
         use_gzip = gz, gzip_level = level, cells = [], dirty = False, last_save = 0,
         params = store, last_hit = None, last_hit_read_ms = 0\<rparr>"
  have "wf_grid (cells ?st0)" "distinct (map fst (cells ?st0))" by (simp_all add: wf_grid_def)
  then have "wf_grid (cells (load_from_params_if_exists rt ?st0)) \<and>
         distinct (map fst (cells (load_from_params_if_exists rt ?st0)))"
    by (rule load_cells_ok)
  then show ?thesis by (simp add: state_ok_def init_def marker_ok_def)
qed

lemma add_sample_frame:
  assumes "add_sample st now lat lon h speed = Inr st'"
  shows "last_hit st' = last_hit st \<and>
         (distinct (map fst (cells st)) \<longrightarrow> distinct (map fst (cells st')))"
  using assms
  by (auto simp: add_sample_def ensure_cell_def put_slot_def Let_def distinct_update
      split: if_splits prod.splits sum.splits option.splits)

lemma add_sample_ok:
  assumes ok: "state_ok st" and a: "add_sample st now lat lon h speed = Inr st'"
  shows "state_ok st'"
proof -
  have "wf_grid (cells st')" using ok a by (auto simp: state_ok_def intro: add_sample_wf)
  moreover have "distinct (map fst (cells st'))"
    using ok add_sample_frame [OF a] by (simp add: state_ok_def)
  moreover have "marker_ok st'"
    using ok add_sample_frame [OF a] by (simp add: state_ok_def marker_ok_def)
  ultimately show ?thesis by (simp add: state_ok_def)
qed

lemma first_match_mem:
  "first_match st now ps = Some (v, gy, gx, bi) \<Longrightarrow> ((gy, gx), bi) \<in> set ps"
  by (induction ps) (auto split: option.splits prod.splits if_splits)

lemma probes_bucket: "(k, bi) \<in> set (probes lat lon h d nf) \<Longrightarrow> 0 \<le> bi \<and> bi < 8"
  by (auto simp: probes_def point_probes_def bucket_order_def)

lemma find_hit_bucket:
  assumes wf: "wf_grid (cells st)"
    and f: "find_hit st now lat lon h d nf = Inr (Some (v, gy, gx, bi))"
  shows "0 \<le> bi \<and> bi < 8"
proof -
  have "first_match st now (probes lat lon h d nf) = Some (v, gy, gx, bi)"
    using find_hit_first_match [OF wf, of now lat lon h d nf] f by simp
  then have "((gy, gx), bi) \<in> set (probes lat lon h d nf)" by (rule first_match_mem)
  then show ?thesis by (rule probes_bucket)
qed

lemma query_ok:
  assumes ok: "state_ok st" and q: "query_target_dist st now now_ms lat lon h d nf = Inr (v, st')"
  shows "state_ok st'"
proof -
  have wf: "wf_grid (cells st)" using ok by (simp add: state_ok_def)
  from query_target_dist_cases [OF q] show ?thesis
  proof
    assume "find_hit st now lat lon h d nf = Inr None \<and> v = 0 \<and> st' = st"
    then show ?thesis using ok by simp
  next
    assume "\<exists>gy gx bi. find_hit st now lat lon h d nf = Inr (Some (v, gy, gx, bi)) \<and>
            st' = st\<lparr>last_hit := Some (gy, gx, bi, now), last_hit_read_ms := now_ms\<rparr>"
    then obtain gy gx bi where f: "find_hit st now lat lon h d nf = Inr (Some (v, gy, gx, bi))"
      and s: "st' = st\<lparr>last_hit := Some (gy, gx, bi, now), last_hit_read_ms := now_ms\<rparr>"
      by blast
    have "0 \<le> bi \<and> bi < 8" using wf f by (rule find_hit_bucket)
    then show ?thesis using ok s by (simp add: state_ok_def marker_ok_def)
  qed
qed

lemma invalidate_ok:
  assumes ok: "state_ok st" and i: "invalidate_last_hit st now w act = Inr (r, st')"
  shows "state_ok st'"
proof (cases "st' = st")
  case True
  then show ?thesis using ok by simp
next
  case False
  have wf: "wf_grid (cells st)" and dk: "distinct (map fst (cells st))"
    using ok by (simp_all add: state_ok_def)
  obtain gy gx b read_ts arr j s where m: "last_hit st = Some (gy, gx, b, read_ts)"
    and a: "map_of (cells st) (gy, gx) = Some arr"
    and s: "st' = (put_slot st (gy, gx) arr j s)\<lparr>dirty := True\<rparr>"
    using i False
    by (auto simp: invalidate_last_hit_def split: option.splits prod.splits if_splits sum.splits)
  have len: "length (arr[j := s]) = 8" using wf a by (simp add: wf_grid_lookup)
  have "wf_grid (cells st')" using wf len s by (simp add: put_slot_def wf_grid_update)
  moreover have "distinct (map fst (cells st'))" using dk s by (simp add: put_slot_def distinct_update)
  moreover have "marker_ok st'" using ok s by (simp add: state_ok_def marker_ok_def put_slot_def)
  ultimately show ?thesis by (simp add: state_ok_def)
qed

lemma save_frame:
  "save rt st now = Inr st' \<Longrightarrow> cells st' = cells st \<and> last_hit st' = last_hit st"
  by (auto simp: save_def split: sum.splits)

lemma maybe_save_ok:
  assumes ok: "state_ok st" and s: "maybe_save rt st now interval_s = Inr st'"
  shows "state_ok st'"
  using ok s by (auto simp: maybe_save_def state_ok_def marker_ok_def dest!: save_frame
      split: if_splits)

lemma close_ok: "state_ok st \<Longrightarrow> state_ok (close rt st now)"
  by (auto simp: close_def state_ok_def marker_ok_def dest!: save_frame split: sum.splits)

lemma reachable_ok: "reachable rt st \<Longrightarrow> state_ok st"
proof (induction rule: reachable.induct)
  case (r_init store ring threshold_s gz level)
  show ?case by (rule init_ok)
next
  case (r_add st now lat lon h speed st')
  then show ?case by (auto intro: add_sample_ok)
next
  case (r_query st now now_ms lat lon h d nf v st')
  then show ?case by (auto intro: query_ok)
next
  case (r_invalidate st now w act r st')
  then show ?case by (auto intro: invalidate_ok)
next
  case (r_save st now interval_s st')
  then show ?case by (auto intro: maybe_save_ok)
next
  case (r_save_now st now st')
  then show ?case by (auto simp: state_ok_def marker_ok_def dest!: save_frame)
next
  case (r_close st now)
  then show ?case by (auto intro: close_ok)
qed

lemma fresh_init: "init rt Map.empty 1 120 True 5 = fresh"
  by (simp add: init_def load_from_params_if_exists_def params_get_def fresh_def)

lemma seeded_add_sample: "add_sample fresh 1000 (75 / 2) 127 90 15 = Inr seeded"
proof -
  have r: "py_round1 15 = 15" by (rule py_round1_samples)
  have q: "quantize_1e4 (75 / 2) 127 = (375000, 1270000)" by (simp add: quantize_1e4_def)
  show ?thesis
    by (simp add: add_sample_def r q bucket_90 ensure_cell_def put_slot_def py_index_def
          seeded_def fresh_def empty_cell_eq)
qed

lemma seeded_reachable: "reachable rt seeded"
proof -
  have "reachable rt fresh" using r_init [of rt Map.empty 1 120 True 5] by (simp add: fresh_init)
  then show ?thesis using seeded_add_sample by (rule r_add)
qed

lemma cleared_is_reachable: "reachable rt cleared"
proof -
  have "reachable rt (seeded\<lparr>last_hit := Some (375000, 1270000, 2, 1121),
                             last_hit_read_ms := 1121000\<rparr>)"
    using seeded_reachable cleared_reachable by (blast intro: r_query)
  then show ?thesis using cleared_reachable by (blast intro: r_invalidate)
qed

end
